theory Spec2Isabelle
  imports Main "HOL-Library.Word"
begin

section \<open>Go values used by package errors\<close>

text \<open>
  The package \<^verbatim>\<open>core/vm/sqlvm/errors\<close> declares two enumerations over \<^verbatim>\<open>uint16\<close>, two
  name tables indexed by them, the record \<^verbatim>\<open>Error\<close> and the slice type \<^verbatim>\<open>ErrorList\<close>,
  each with an \<^verbatim>\<open>Error() string\<close> method. Go strings are byte sequences, modelled as
  \<^typ>\<open>string\<close> (a list of 8-bit characters).
\<close>

type_synonym uint16 = "16 word"
type_synonym uint32 = "32 word"

text \<open>
  A run-time panic is a value. The only panic the package can raise is the bounds check
  of an array index expression, which carries the index and the array's length.
\<close>

datatype go_panic = IndexOutOfRange nat nat

text \<open>The index expression \<^verbatim>\<open>a[i]\<close> on an array, with its bounds check.\<close>

definition index_array :: "'a list \<Rightarrow> nat \<Rightarrow> go_panic + 'a" where
  "index_array a i =
     (if i < length a then Inr (a ! i) else Inl (IndexOutOfRange i (length a)))"

text \<open>
  The composite literal \<^verbatim>\<open>[...]string{k1: v1, ..., kn: vn}\<close>: the array's length is the
  largest key plus one, and an index that no key names holds the zero value, the empty
  string.
\<close>

definition array_literal :: "(nat \<times> string) list \<Rightarrow> string list" where
  "array_literal kvs =
     map (\<lambda>i. case map_of kvs i of Some v \<Rightarrow> v | None \<Rightarrow> [])
       [0 ..< fold (\<lambda>kv n. max n (Suc (fst kv))) kvs 0]"

text \<open>
  A constant block \<^verbatim>\<open>const ( A T = iota; B; C; ... )\<close>: every line repeats the expression
  \<^verbatim>\<open>iota\<close>, whose value is the position of the line in the block (comment lines do not
  count). A block is the list of its identifiers in declaration order.
\<close>

definition iota :: "string list \<Rightarrow> string \<Rightarrow> nat" where
  "iota block name = length (takeWhile (\<lambda>n. n \<noteq> name) block)"

section \<open>ErrorCategory\<close>

definition ErrorCategory_block :: "string list" where
  "ErrorCategory_block =
     [''ErrorCategoryNil'',
      ''ErrorCategoryLimit'',
      ''ErrorCategoryGrammar'',
      ''ErrorCategorySemantic'',
      ''ErrorCategoryRuntime'']"

definition ErrorCategoryNil :: uint16 where
  "ErrorCategoryNil = of_nat (iota ErrorCategory_block ''ErrorCategoryNil'')"

definition ErrorCategoryLimit :: uint16 where
  "ErrorCategoryLimit = of_nat (iota ErrorCategory_block ''ErrorCategoryLimit'')"

definition ErrorCategoryGrammar :: uint16 where
  "ErrorCategoryGrammar = of_nat (iota ErrorCategory_block ''ErrorCategoryGrammar'')"

definition ErrorCategorySemantic :: uint16 where
  "ErrorCategorySemantic = of_nat (iota ErrorCategory_block ''ErrorCategorySemantic'')"

definition ErrorCategoryRuntime :: uint16 where
  "ErrorCategoryRuntime = of_nat (iota ErrorCategory_block ''ErrorCategoryRuntime'')"

definition errorCategoryMap :: "string list" where
  "errorCategoryMap = array_literal
     [(unat ErrorCategoryLimit, ''limit''),
      (unat ErrorCategoryGrammar, ''grammar''),
      (unat ErrorCategorySemantic, ''semantic''),
      (unat ErrorCategoryRuntime, ''runtime'')]"

definition ErrorCategory_Error :: "uint16 \<Rightarrow> go_panic + string" where
  "ErrorCategory_Error c = index_array errorCategoryMap (unat c)"

section \<open>ErrorCode\<close>

definition ErrorCode_block :: "string list" where
  "ErrorCode_block =
     [''ErrorCodeNil'',
      ''ErrorCodeDepthLimitReached'',
      ''ErrorCodeParser'',
      ''ErrorCodeInvalidIntegerSyntax'',
      ''ErrorCodeInvalidNumberSyntax'',
      ''ErrorCodeIntegerOutOfRange'',
      ''ErrorCodeNumberOutOfRange'',
      ''ErrorCodeFractionalPartTooLong'',
      ''ErrorCodeEscapeSequenceTooShort'',
      ''ErrorCodeInvalidUnicodeCodePoint'',
      ''ErrorCodeUnknownEscapeSequence'',
      ''ErrorCodeInvalidBytesSize'',
      ''ErrorCodeInvalidIntSize'',
      ''ErrorCodeInvalidUintSize'',
      ''ErrorCodeInvalidFixedSize'',
      ''ErrorCodeInvalidUfixedSize'',
      ''ErrorCodeInvalidFixedFractionalDigits'',
      ''ErrorCodeInvalidUfixedFractionalDigits'',
      ''ErrorCodeInvalidDataType'',
      ''ErrorCodeOverflow'',
      ''ErrorCodeUnderflow'',
      ''ErrorCodeIndexOutOfRange'',
      ''ErrorCodeInvalidCastType'',
      ''ErrorCodeDividedByZero'']"

definition ErrorCodeNil :: uint16 where
  "ErrorCodeNil = of_nat (iota ErrorCode_block ''ErrorCodeNil'')"

definition ErrorCodeDepthLimitReached :: uint16 where
  "ErrorCodeDepthLimitReached = of_nat (iota ErrorCode_block ''ErrorCodeDepthLimitReached'')"

definition ErrorCodeParser :: uint16 where
  "ErrorCodeParser = of_nat (iota ErrorCode_block ''ErrorCodeParser'')"

definition ErrorCodeInvalidIntegerSyntax :: uint16 where
  "ErrorCodeInvalidIntegerSyntax =
     of_nat (iota ErrorCode_block ''ErrorCodeInvalidIntegerSyntax'')"

definition ErrorCodeInvalidNumberSyntax :: uint16 where
  "ErrorCodeInvalidNumberSyntax =
     of_nat (iota ErrorCode_block ''ErrorCodeInvalidNumberSyntax'')"

definition ErrorCodeIntegerOutOfRange :: uint16 where
  "ErrorCodeIntegerOutOfRange = of_nat (iota ErrorCode_block ''ErrorCodeIntegerOutOfRange'')"

definition ErrorCodeNumberOutOfRange :: uint16 where
  "ErrorCodeNumberOutOfRange = of_nat (iota ErrorCode_block ''ErrorCodeNumberOutOfRange'')"

definition ErrorCodeFractionalPartTooLong :: uint16 where
  "ErrorCodeFractionalPartTooLong =
     of_nat (iota ErrorCode_block ''ErrorCodeFractionalPartTooLong'')"

definition ErrorCodeEscapeSequenceTooShort :: uint16 where
  "ErrorCodeEscapeSequenceTooShort =
     of_nat (iota ErrorCode_block ''ErrorCodeEscapeSequenceTooShort'')"

definition ErrorCodeInvalidUnicodeCodePoint :: uint16 where
  "ErrorCodeInvalidUnicodeCodePoint =
     of_nat (iota ErrorCode_block ''ErrorCodeInvalidUnicodeCodePoint'')"

definition ErrorCodeUnknownEscapeSequence :: uint16 where
  "ErrorCodeUnknownEscapeSequence =
     of_nat (iota ErrorCode_block ''ErrorCodeUnknownEscapeSequence'')"

definition ErrorCodeInvalidBytesSize :: uint16 where
  "ErrorCodeInvalidBytesSize = of_nat (iota ErrorCode_block ''ErrorCodeInvalidBytesSize'')"

definition ErrorCodeInvalidIntSize :: uint16 where
  "ErrorCodeInvalidIntSize = of_nat (iota ErrorCode_block ''ErrorCodeInvalidIntSize'')"

definition ErrorCodeInvalidUintSize :: uint16 where
  "ErrorCodeInvalidUintSize = of_nat (iota ErrorCode_block ''ErrorCodeInvalidUintSize'')"

definition ErrorCodeInvalidFixedSize :: uint16 where
  "ErrorCodeInvalidFixedSize = of_nat (iota ErrorCode_block ''ErrorCodeInvalidFixedSize'')"

definition ErrorCodeInvalidUfixedSize :: uint16 where
  "ErrorCodeInvalidUfixedSize = of_nat (iota ErrorCode_block ''ErrorCodeInvalidUfixedSize'')"

definition ErrorCodeInvalidFixedFractionalDigits :: uint16 where
  "ErrorCodeInvalidFixedFractionalDigits =
     of_nat (iota ErrorCode_block ''ErrorCodeInvalidFixedFractionalDigits'')"

definition ErrorCodeInvalidUfixedFractionalDigits :: uint16 where
  "ErrorCodeInvalidUfixedFractionalDigits =
     of_nat (iota ErrorCode_block ''ErrorCodeInvalidUfixedFractionalDigits'')"

definition ErrorCodeInvalidDataType :: uint16 where
  "ErrorCodeInvalidDataType = of_nat (iota ErrorCode_block ''ErrorCodeInvalidDataType'')"

definition ErrorCodeOverflow :: uint16 where
  "ErrorCodeOverflow = of_nat (iota ErrorCode_block ''ErrorCodeOverflow'')"

definition ErrorCodeUnderflow :: uint16 where
  "ErrorCodeUnderflow = of_nat (iota ErrorCode_block ''ErrorCodeUnderflow'')"

definition ErrorCodeIndexOutOfRange :: uint16 where
  "ErrorCodeIndexOutOfRange = of_nat (iota ErrorCode_block ''ErrorCodeIndexOutOfRange'')"

definition ErrorCodeInvalidCastType :: uint16 where
  "ErrorCodeInvalidCastType = of_nat (iota ErrorCode_block ''ErrorCodeInvalidCastType'')"

definition ErrorCodeDividedByZero :: uint16 where
  "ErrorCodeDividedByZero = of_nat (iota ErrorCode_block ''ErrorCodeDividedByZero'')"

definition errorCodeMap :: "string list" where
  "errorCodeMap = array_literal
     [(unat ErrorCodeDepthLimitReached, ''depth limit reached''),
      (unat ErrorCodeParser, ''parser error''),
      (unat ErrorCodeInvalidIntegerSyntax, ''invalid integer syntax''),
      (unat ErrorCodeInvalidNumberSyntax, ''invalid number syntax''),
      (unat ErrorCodeIntegerOutOfRange, ''integer out of range''),
      (unat ErrorCodeNumberOutOfRange, ''number out of range''),
      (unat ErrorCodeFractionalPartTooLong, ''fractional part too long''),
      (unat ErrorCodeEscapeSequenceTooShort, ''escape sequence too short''),
      (unat ErrorCodeInvalidUnicodeCodePoint, ''invalid unicode code point''),
      (unat ErrorCodeUnknownEscapeSequence, ''unknown escape sequence''),
      (unat ErrorCodeInvalidBytesSize, ''invalid bytes size''),
      (unat ErrorCodeInvalidIntSize, ''invalid int size''),
      (unat ErrorCodeInvalidUintSize, ''invalid uint size''),
      (unat ErrorCodeInvalidFixedSize, ''invalid fixed size''),
      (unat ErrorCodeInvalidUfixedSize, ''invalid ufixed size''),
      (unat ErrorCodeInvalidFixedFractionalDigits, ''invalid fixed fractional digits''),
      (unat ErrorCodeInvalidUfixedFractionalDigits, ''invalid ufixed fractional digits''),
      (unat ErrorCodeInvalidDataType, ''invalid data type''),
      (unat ErrorCodeOverflow, ''overflow''),
      (unat ErrorCodeUnderflow, ''underflow''),
      (unat ErrorCodeIndexOutOfRange, ''index out of range''),
      (unat ErrorCodeInvalidCastType, ''invalid cast type''),
      (unat ErrorCodeDividedByZero, ''divide by zero'')]"

definition ErrorCode_Error :: "uint16 \<Rightarrow> go_panic + string" where
  "ErrorCode_Error c = index_array errorCodeMap (unat c)"

section \<open>Package fmt: the verbs the package uses\<close>

text \<open>
  The verb \<^verbatim>\<open>%d\<close> on an unsigned integer operand (also one of a named integer type
  with methods: for \<^verbatim>\<open>%d\<close> the printer does not look at methods) writes its decimal
  digits, most significant first.
\<close>

definition digits :: string where
  "digits = ''0123456789''"

fun fmtInteger :: "nat \<Rightarrow> string" where
  "fmtInteger u =
     (if u < 10 then [digits ! u] else fmtInteger (u div 10) @ [digits ! (u mod 10)])"

declare fmtInteger.simps [simp del]

text \<open>
  The message of the run-time error raised by a failed bounds check, in the wording of
  current Go releases (older ones leave out the index and the length).
\<close>

definition boundsError_Error :: "go_panic \<Rightarrow> string" where
  "boundsError_Error p =
     (case p of IndexOutOfRange i n \<Rightarrow>
        ''runtime error: index out of range ['' @ fmtInteger i @ ''] with length ''
          @ fmtInteger n)"

text \<open>
  The verb \<^verbatim>\<open>%s\<close> on an operand that implements \<^verbatim>\<open>error\<close>: the printer calls the
  operand's \<^verbatim>\<open>Error\<close> method under a deferred \<^verbatim>\<open>catchPanic\<close>. If the method panics,
  the printer recovers and writes \<^verbatim>\<open>%!s(PANIC=Error method: <the panic's message>)\<close> in
  place of the name; the panic is raised again only when the printer is already
  printing a recovered panic (the flag \<^verbatim>\<open>panicking\<close>, false at every call of
  \<^verbatim>\<open>Sprintf\<close>). The argument is the outcome of the method call.
\<close>

definition handleMethods_s :: "bool \<Rightarrow> go_panic + string \<Rightarrow> go_panic + string" where
  "handleMethods_s panicking r =
     (case r of
        Inr s \<Rightarrow> Inr s
      | Inl p \<Rightarrow>
          if panicking then Inl p
          else Inr (''%!s(PANIC=Error method: '' @ boundsError_Error p @ '')''))"

text \<open>
  The three calls of \<^verbatim>\<open>fmt.Sprintf\<close> in \<^verbatim>\<open>Error.Error\<close>, by their format strings:
  \<^verbatim>\<open>"offset %d"\<close>, \<^verbatim>\<open>", length %d"\<close> and \<^verbatim>\<open>", category %d (%s), code %d (%s)"\<close>, the last
  with the operands \<^verbatim>\<open>e.Category, e.Category, e.Code, e.Code\<close>.
\<close>

definition Sprintf_offset :: "uint32 \<Rightarrow> string" where
  "Sprintf_offset p = ''offset '' @ fmtInteger (unat p)"

definition Sprintf_length :: "uint32 \<Rightarrow> string" where
  "Sprintf_length n = '', length '' @ fmtInteger (unat n)"

definition Sprintf_category_code :: "uint16 \<Rightarrow> uint16 \<Rightarrow> go_panic + string" where
  "Sprintf_category_code c d =
     (case handleMethods_s False (ErrorCategory_Error c) of
        Inl p \<Rightarrow> Inl p
      | Inr cname \<Rightarrow>
          (case handleMethods_s False (ErrorCode_Error d) of
             Inl p \<Rightarrow> Inl p
           | Inr dname \<Rightarrow>
               Inr ('', category '' @ fmtInteger (unat c) @ '' ('' @ cname @ ''), code ''
                      @ fmtInteger (unat d) @ '' ('' @ dname @ '')'')))"

section \<open>Package unicode/utf8\<close>

text \<open>
  Runes are natural numbers, bytes are the characters of a string read with
  \<^term>\<open>of_char\<close>. The masks and shifts of the library are written as \<open>mod\<close>, \<open>div\<close> and
  multiplication by powers of two. \<open>first\<close> is the library's table of the same name:
  for a leading byte, the length of the encoding and the accepted range of the second
  byte, or nothing for a byte that cannot start an encoding.
\<close>

definition RuneError :: nat where "RuneError = 0xFFFD"
definition RuneSelf :: nat where "RuneSelf = 0x80"
definition MaxRune :: nat where "MaxRune = 0x10FFFF"

definition first :: "nat \<Rightarrow> (nat \<times> nat \<times> nat) option" where
  "first b =
     (if b < 0x80 then Some (1, 0, 0)
      else if b < 0xC2 then None
      else if b < 0xE0 then Some (2, 0x80, 0xBF)
      else if b = 0xE0 then Some (3, 0xA0, 0xBF)
      else if b < 0xED then Some (3, 0x80, 0xBF)
      else if b = 0xED then Some (3, 0x80, 0x9F)
      else if b < 0xF0 then Some (3, 0x80, 0xBF)
      else if b = 0xF0 then Some (4, 0x90, 0xBF)
      else if b < 0xF4 then Some (4, 0x80, 0xBF)
      else if b = 0xF4 then Some (4, 0x80, 0x8F)
      else None)"

definition DecodeRuneInString :: "string \<Rightarrow> nat \<times> nat" where
  "DecodeRuneInString s =
     (let n = length s; b = (\<lambda>i. (of_char (s ! i) :: nat)) in
      if n < 1 then (RuneError, 0)
      else (case first (b 0) of
          None \<Rightarrow> (RuneError, 1)
        | Some (sz, lo, hi) \<Rightarrow>
            if sz = 1 then (b 0, 1)
            else if n < sz then (RuneError, 1)
            else if b 1 < lo \<or> hi < b 1 then (RuneError, 1)
            else if sz \<le> 2 then (b 0 mod 32 * 64 + b 1 mod 64, 2)
            else if b 2 < 0x80 \<or> 0xBF < b 2 then (RuneError, 1)
            else if sz \<le> 3 then (b 0 mod 16 * 4096 + b 1 mod 64 * 64 + b 2 mod 64, 3)
            else if b 3 < 0x80 \<or> 0xBF < b 3 then (RuneError, 1)
            else (b 0 mod 8 * 262144 + b 1 mod 64 * 4096 + b 2 mod 64 * 64 + b 3 mod 64, 4)))"

definition ValidRune :: "nat \<Rightarrow> bool" where
  "ValidRune r = (if r < 0xD800 then True else if 0xDFFF < r \<and> r \<le> MaxRune then True else False)"

definition AppendRune :: "string \<Rightarrow> nat \<Rightarrow> string" where
  "AppendRune p r =
     (if r \<le> 0x7F then p @ [char_of r]
      else if r \<le> 0x7FF then p @ [char_of (0xC0 + r div 64), char_of (0x80 + r mod 64)]
      else if MaxRune < r \<or> (0xD800 \<le> r \<and> r \<le> 0xDFFF) then
        p @ [char_of (0xE0 + RuneError div 4096), char_of (0x80 + RuneError div 64 mod 64),
             char_of (0x80 + RuneError mod 64)]
      else if r \<le> 0xFFFF then
        p @ [char_of (0xE0 + r div 4096), char_of (0x80 + r div 64 mod 64),
             char_of (0x80 + r mod 64)]
      else
        p @ [char_of (0xF0 + r div 262144), char_of (0x80 + r div 4096 mod 64),
             char_of (0x80 + r div 64 mod 64), char_of (0x80 + r mod 64)])"

section \<open>Package strconv: Quote\<close>

text \<open>
  \<^verbatim>\<open>strconv.Quote(s)\<close> is \<^verbatim>\<open>appendQuotedWith\<close> with the quote mark \<^verbatim>\<open>"\<close>, neither
  ASCII-only nor graphic-only. \<^verbatim>\<open>IsPrint\<close> decides Latin-1 by comparisons and every
  other rune by lookup in Unicode tables generated with the library; those tables are
  the parameter \<open>tables\<close> of the model. \<open>hexdigits k r\<close> are the \<open>k\<close> hexadecimal
  digits of \<open>r\<close>, most significant first, as the loops over the shifts
  \<^verbatim>\<open>r>>uint(s)&0xF\<close> append them. \<open>nextRune\<close> is the head of the loop of
  \<^verbatim>\<open>appendQuotedWith\<close>: a byte below \<^verbatim>\<open>utf8.RuneSelf\<close> is its own rune of width one,
  any other is decoded. DEL is written \<^verbatim>\<open>\x7f\<close>, as current releases do (older ones
  write \<^verbatim>\<open>\u007f\<close>).
\<close>

definition lowerhex :: string where
  "lowerhex = ''0123456789abcdef''"

definition IsPrint :: "(nat \<Rightarrow> bool) \<Rightarrow> nat \<Rightarrow> bool" where
  "IsPrint tables r =
     (if r \<le> 0xFF then
        (if 0x20 \<le> r \<and> r \<le> 0x7E then True
         else if 0xA1 \<le> r \<and> r \<le> 0xFF then r \<noteq> 0xAD
         else False)
      else tables r)"

definition hexdigits :: "nat \<Rightarrow> nat \<Rightarrow> string" where
  "hexdigits k r = map (\<lambda>i. lowerhex ! (r div 16 ^ i mod 16)) (rev [0 ..< k])"

definition appendEscapedRune :: "(nat \<Rightarrow> bool) \<Rightarrow> string \<Rightarrow> nat \<Rightarrow> string" where
  "appendEscapedRune tables buf r =
     (if r = 0x22 \<or> r = 0x5C then buf @ [CHR 0x5C, char_of r]
      else if IsPrint tables r then AppendRune buf r
      else if r = 0x07 then buf @ [CHR 0x5C, CHR ''a'']
      else if r = 0x08 then buf @ [CHR 0x5C, CHR ''b'']
      else if r = 0x0C then buf @ [CHR 0x5C, CHR ''f'']
      else if r = 0x0A then buf @ [CHR 0x5C, CHR ''n'']
      else if r = 0x0D then buf @ [CHR 0x5C, CHR ''r'']
      else if r = 0x09 then buf @ [CHR 0x5C, CHR ''t'']
      else if r = 0x0B then buf @ [CHR 0x5C, CHR ''v'']
      else if r < 0x20 \<or> r = 0x7F then buf @ [CHR 0x5C, CHR ''x''] @ hexdigits 2 r
      else if \<not> ValidRune r then buf @ [CHR 0x5C, CHR ''u''] @ hexdigits 4 RuneError
      else if r < 0x10000 then buf @ [CHR 0x5C, CHR ''u''] @ hexdigits 4 r
      else buf @ [CHR 0x5C, CHR ''U''] @ hexdigits 8 r)"

definition nextRune :: "string \<Rightarrow> nat \<times> nat" where
  "nextRune s =
     (let r = (of_char (s ! 0) :: nat) in
      if RuneSelf \<le> r then DecodeRuneInString s else (r, 1))"

lemma snd_if: "snd (if c then x else y) = (if c then snd x else snd y)"
  by simp

lemma DecodeRuneInString_width_pos: "s \<noteq> [] \<Longrightarrow> 0 < snd (DecodeRuneInString s)"
  unfolding DecodeRuneInString_def Let_def
  apply (cases "first (of_char (s ! 0))")
   apply simp
  subgoal for a
    apply (cases a)
    apply (simp only: option.case prod.case snd_if snd_conv split: if_split)
    apply simp
    done
  done

lemma nextRune_width_pos: "s \<noteq> [] \<Longrightarrow> 0 < snd (nextRune s)"
  by (simp add: nextRune_def Let_def DecodeRuneInString_width_pos)

lemma drop_nextRune_shorter:
  "s \<noteq> [] \<Longrightarrow> (r, width) = nextRune s \<Longrightarrow> length s - width < length s"
  using nextRune_width_pos [of s] by (cases "nextRune s") auto

function appendQuoted_loop :: "(nat \<Rightarrow> bool) \<Rightarrow> string \<Rightarrow> string \<Rightarrow> string" where
  "appendQuoted_loop tables buf s =
     (if s = [] then buf
      else (case nextRune s of (r, width) \<Rightarrow>
        if width = 1 \<and> r = RuneError then
          appendQuoted_loop tables
            (buf @ [CHR 0x5C, CHR ''x''] @ hexdigits 2 (of_char (s ! 0))) (drop width s)
        else appendQuoted_loop tables (appendEscapedRune tables buf r) (drop width s)))"
  by pat_completeness auto
termination
  by (relation "measure (\<lambda>(tables, buf, s). length s)") (auto dest: drop_nextRune_shorter)

declare appendQuoted_loop.simps [simp del]

definition Quote :: "(nat \<Rightarrow> bool) \<Rightarrow> string \<Rightarrow> string" where
  "Quote tables s = appendQuoted_loop tables [CHR 0x22] s @ [CHR 0x22]"

section \<open>Package strings: Builder\<close>

type_synonym Builder = string

definition Builder_new :: Builder where
  "Builder_new = []"

definition WriteString :: "Builder \<Rightarrow> string \<Rightarrow> Builder" where
  "WriteString b s = b @ s"

definition WriteByte :: "Builder \<Rightarrow> char \<Rightarrow> Builder" where
  "WriteByte b c = b @ [c]"

definition Builder_String :: "Builder \<Rightarrow> string" where
  "Builder_String b = b"

section \<open>Error and ErrorList\<close>

record Error =
  Position :: uint32
  Length :: uint32
  Category :: uint16
  Code :: uint16
  Token :: string
  Prefix :: string
  Message :: string

text \<open>
  \<^verbatim>\<open>func (e Error) Error() string\<close>. The builder is local to the call and is threaded
  through the writes in the order of the source. The result is a sum: a panic that
  leaves the method, or the string it returns.
\<close>

definition Error_Error :: "(nat \<Rightarrow> bool) \<Rightarrow> Error \<Rightarrow> go_panic + string" where
  "Error_Error tables e =
     (let b = Builder_new;
          b = (if 0 < Position e \<or> 0 < Length e then
                 (let b = WriteString b (Sprintf_offset (Position e)) in
                  if 0 < Length e then WriteString b (Sprintf_length (Length e)) else b)
               else WriteString b ''unknown location'')
      in case Sprintf_category_code (Category e) (Code e) of
           Inl p \<Rightarrow> Inl p
         | Inr s \<Rightarrow>
             (let b = WriteString b s;
                  b = (if Token e \<noteq> [] then
                         WriteString (WriteString b '', token '') (Quote tables (Token e))
                       else b);
                  b = (if Prefix e \<noteq> [] then
                         WriteString (WriteString b '', hint '') (Quote tables (Prefix e))
                       else b);
                  b = (if Message e \<noteq> [] then
                         WriteString (WriteString b '', message: '') (Message e)
                       else b)
              in Inr (Builder_String b)))"

text \<open>
  \<^verbatim>\<open>func (e ErrorList) Error() string\<close>: the loop \<^verbatim>\<open>for i := range e\<close> with its index,
  the builder and the slice as state. A panic of an element's method leaves the loop.
\<close>

function ErrorList_loop ::
  "(nat \<Rightarrow> bool) \<Rightarrow> Error list \<Rightarrow> nat \<Rightarrow> Builder \<Rightarrow> go_panic + string" where
  "ErrorList_loop tables e i b =
     (if i < length e then
        (let b = (if 0 < i then WriteByte b (CHR 0x0A) else b) in
         case Error_Error tables (e ! i) of
           Inl p \<Rightarrow> Inl p
         | Inr s \<Rightarrow> ErrorList_loop tables e (Suc i) (WriteString b s))
      else Inr (Builder_String b))"
  by pat_completeness auto
termination
  by (relation "measure (\<lambda>(tables, e, i, b). length e - i)") auto

declare ErrorList_loop.simps [simp del]

definition ErrorList_Error :: "(nat \<Rightarrow> bool) \<Rightarrow> Error list \<Rightarrow> go_panic + string" where
  "ErrorList_Error tables e = ErrorList_loop tables e 0 Builder_new"

text \<open>
  The specification's reading of the list rendering: the renderings joined with one
  line break between neighbours.
\<close>

fun join_lines :: "string list \<Rightarrow> string" where
  "join_lines [] = []"
| "join_lines [x] = x"
| "join_lines (x # y # ys) = x @ [CHR 0x0A] @ join_lines (y # ys)"

section \<open>The methods over the memory of the program\<close>

text \<open>
  To state that rendering has no side effect, the methods are written once more over
  the memory they can reach: the two package-level variables, declared with \<^verbatim>\<open>var\<close>
  and so assignable, and the heap that holds the elements of slices. A method takes the
  state and returns its result together with the state after the call. The receiver of
  \<^verbatim>\<open>Error.Error\<close> is a copy of the value; the receiver of \<^verbatim>\<open>ErrorList.Error\<close> is a slice
  header, and \<^verbatim>\<open>e[i]\<close> is read from the heap at \<open>Data e + i\<close>. The builder is local to
  the call.
\<close>

record go_state =
  var_errorCategoryMap :: "string list"
  var_errorCodeMap :: "string list"
  heap :: "nat \<Rightarrow> Error"

text \<open>
  The state after the initialisers of the package have run, over any heap.
\<close>

definition package_init :: "(nat \<Rightarrow> Error) \<Rightarrow> go_state" where
  "package_init h =
     \<lparr>var_errorCategoryMap = errorCategoryMap, var_errorCodeMap = errorCodeMap, heap = h\<rparr>"

record Slice =
  Data :: nat
  Len :: nat
  Cap :: nat

definition ErrorCategory_Error_st ::
  "uint16 \<Rightarrow> go_state \<Rightarrow> (go_panic + string) \<times> go_state" where
  "ErrorCategory_Error_st c \<sigma> = (index_array (var_errorCategoryMap \<sigma>) (unat c), \<sigma>)"

definition ErrorCode_Error_st ::
  "uint16 \<Rightarrow> go_state \<Rightarrow> (go_panic + string) \<times> go_state" where
  "ErrorCode_Error_st c \<sigma> = (index_array (var_errorCodeMap \<sigma>) (unat c), \<sigma>)"

definition Sprintf_category_code_st ::
  "uint16 \<Rightarrow> uint16 \<Rightarrow> go_state \<Rightarrow> (go_panic + string) \<times> go_state" where
  "Sprintf_category_code_st c d \<sigma> =
     (case ErrorCategory_Error_st c \<sigma> of (rc, \<sigma>1) \<Rightarrow>
        (case handleMethods_s False rc of
           Inl p \<Rightarrow> (Inl p, \<sigma>1)
         | Inr cname \<Rightarrow>
             (case ErrorCode_Error_st d \<sigma>1 of (rd, \<sigma>2) \<Rightarrow>
                (case handleMethods_s False rd of
                   Inl p \<Rightarrow> (Inl p, \<sigma>2)
                 | Inr dname \<Rightarrow>
                     (Inr ('', category '' @ fmtInteger (unat c) @ '' ('' @ cname
                            @ ''), code '' @ fmtInteger (unat d) @ '' ('' @ dname @ '')''),
                      \<sigma>2)))))"

definition Error_Error_st ::
  "(nat \<Rightarrow> bool) \<Rightarrow> Error \<Rightarrow> go_state \<Rightarrow> (go_panic + string) \<times> go_state" where
  "Error_Error_st tables e \<sigma> =
     (let b = Builder_new;
          b = (if 0 < Position e \<or> 0 < Length e then
                 (let b = WriteString b (Sprintf_offset (Position e)) in
                  if 0 < Length e then WriteString b (Sprintf_length (Length e)) else b)
               else WriteString b ''unknown location'')
      in case Sprintf_category_code_st (Category e) (Code e) \<sigma> of
           (Inl p, \<sigma>1) \<Rightarrow> (Inl p, \<sigma>1)
         | (Inr s, \<sigma>1) \<Rightarrow>
             (let b = WriteString b s;
                  b = (if Token e \<noteq> [] then
                         WriteString (WriteString b '', token '') (Quote tables (Token e))
                       else b);
                  b = (if Prefix e \<noteq> [] then
                         WriteString (WriteString b '', hint '') (Quote tables (Prefix e))
                       else b);
                  b = (if Message e \<noteq> [] then
                         WriteString (WriteString b '', message: '') (Message e)
                       else b)
              in (Inr (Builder_String b), \<sigma>1)))"

function ErrorList_loop_st ::
  "(nat \<Rightarrow> bool) \<Rightarrow> Slice \<Rightarrow> nat \<Rightarrow> Builder \<Rightarrow> go_state
     \<Rightarrow> (go_panic + string) \<times> go_state" where
  "ErrorList_loop_st tables e i b \<sigma> =
     (if i < Len e then
        (let b = (if 0 < i then WriteByte b (CHR 0x0A) else b) in
         case Error_Error_st tables (heap \<sigma> (Data e + i)) \<sigma> of
           (Inl p, \<sigma>1) \<Rightarrow> (Inl p, \<sigma>1)
         | (Inr s, \<sigma>1) \<Rightarrow> ErrorList_loop_st tables e (Suc i) (WriteString b s) \<sigma>1)
      else (Inr (Builder_String b), \<sigma>))"
  by pat_completeness auto
termination
  by (relation "measure (\<lambda>(tables, e, i, b, \<sigma>). Len e - i)") auto

declare ErrorList_loop_st.simps [simp del]

definition ErrorList_Error_st ::
  "(nat \<Rightarrow> bool) \<Rightarrow> Slice \<Rightarrow> go_state \<Rightarrow> (go_panic + string) \<times> go_state" where
  "ErrorList_Error_st tables e \<sigma> = ErrorList_loop_st tables e 0 Builder_new \<sigma>"

text \<open>The values a slice holds.\<close>

definition elements :: "go_state \<Rightarrow> Slice \<Rightarrow> Error list" where
  "elements \<sigma> e = map (\<lambda>i. heap \<sigma> (Data e + i)) [0 ..< Len e]"

section \<open>Predicates of the specification and auxiliary notions\<close>

text \<open>
  A diagnostic name is lowercase when it is made of the letters \<^verbatim>\<open>a\<close> to \<^verbatim>\<open>z\<close> and
  spaces only.
\<close>

definition lowercase_name :: "string \<Rightarrow> bool" where
  "lowercase_name s =
     list_all (\<lambda>c. c = CHR '' '' \<or> (97 \<le> (of_char c :: nat) \<and> (of_char c :: nat) \<le> 122)) s"

text \<open>
  The string an \<^verbatim>\<open>Error\<close> renders to, and the clauses of a rendering as the
  specification lists them: the location clause, and the token, hint and message
  clauses.
\<close>

definition Render :: "(nat \<Rightarrow> bool) \<Rightarrow> Error \<Rightarrow> string" where
  "Render tables e = (case Error_Error tables e of Inr s \<Rightarrow> s | Inl p \<Rightarrow> [])"

definition location_clause :: "Error \<Rightarrow> string" where
  "location_clause e =
     (if 0 < Position e \<or> 0 < Length e then
        ''offset '' @ fmtInteger (unat (Position e))
          @ (if 0 < Length e then '', length '' @ fmtInteger (unat (Length e)) else [])
      else ''unknown location'')"

definition debug_clauses :: "(nat \<Rightarrow> bool) \<Rightarrow> Error \<Rightarrow> string" where
  "debug_clauses tables e =
     (if Token e \<noteq> [] then '', token '' @ Quote tables (Token e) else [])
       @ (if Prefix e \<noteq> [] then '', hint '' @ Quote tables (Prefix e) else [])
       @ (if Message e \<noteq> [] then '', message: '' @ Message e else [])"

text \<open>
  The body of a quoted string is read from left to right; a backslash escapes the
  character after it. The body is well escaped when no quote mark stands outside an
  escape and no escape is left open at its end. The flag says that the previous
  character was an escaping backslash. A character is a control character when it is
  below the space or is DEL.
\<close>

fun quotes_escaped :: "bool \<Rightarrow> string \<Rightarrow> bool" where
  "quotes_escaped esc [] = (\<not> esc)"
| "quotes_escaped esc (c # cs) =
     (if esc then quotes_escaped False cs
      else if c = CHR 0x5C then quotes_escaped True cs
      else c \<noteq> CHR 0x22 \<and> quotes_escaped False cs)"

definition no_control :: "char \<Rightarrow> bool" where
  "no_control c = (0x20 \<le> (of_char c :: nat) \<and> (of_char c :: nat) \<noteq> 0x7F)"

text \<open>
  \<open>multibyte s r w\<close>: the string \<open>s\<close> starts with the encoding, \<open>w\<close> bytes long, of the
  rune \<open>r\<close> beyond ASCII. \<open>escape_first\<close> is what one round of the loop of \<^verbatim>\<open>Quote\<close>
  appends for the first rune of a non-empty string, and \<open>Quote_body\<close> what the loop
  appends in all. \<open>named_escapes\<close> pairs the control characters that have a
  one-letter escape with their letters.
\<close>

definition multibyte :: "string \<Rightarrow> nat \<Rightarrow> nat \<Rightarrow> bool" where
  "multibyte s r w =
     (2 \<le> w \<and> w \<le> length s \<and> map_option fst (first (of_char (s ! 0))) = Some w
      \<and> 0x80 \<le> r \<and> r \<le> MaxRune \<and> ValidRune r \<and> AppendRune [] r = take w s
      \<and> list_all (\<lambda>c. 0x80 \<le> (of_char c :: nat)) (take w s))"

definition escape_first :: "(nat \<Rightarrow> bool) \<Rightarrow> string \<Rightarrow> string" where
  "escape_first tables s =
     (case nextRune s of (r, width) \<Rightarrow>
        if width = 1 \<and> r = RuneError then
          [CHR 0x5C, CHR ''x''] @ hexdigits 2 (of_char (s ! 0))
        else appendEscapedRune tables [] r)"

definition Quote_body :: "(nat \<Rightarrow> bool) \<Rightarrow> string \<Rightarrow> string" where
  "Quote_body tables s = appendQuoted_loop tables [] s"

definition named_escapes :: "(char \<times> char) list" where
  "named_escapes =
     [(CHR 0x07, CHR ''a''), (CHR 0x08, CHR ''b''), (CHR 0x0C, CHR ''f''),
      (CHR 0x0A, CHR ''n''), (CHR 0x0D, CHR ''r''), (CHR 0x09, CHR ''t''),
      (CHR 0x0B, CHR ''v'')]"

text \<open>
  A reader of quoted bodies, to show that quoting loses nothing: \<open>hexval\<close> reads
  hexadecimal digits, \<open>tok_len\<close> is the length of the first escape or character of a
  body, and \<open>tok_src\<close> the bytes it stands for.
\<close>

definition hexval :: "string \<Rightarrow> nat" where
  "hexval ds = foldl (\<lambda>a c. 16 * a + length (takeWhile (\<lambda>d. d \<noteq> c) lowerhex)) 0 ds"

definition tok_len :: "string \<Rightarrow> nat" where
  "tok_len x =
     (case x of
        [] \<Rightarrow> 0
      | c # cs \<Rightarrow>
          if c = CHR 0x5C then
            (case cs of
               [] \<Rightarrow> 0
             | d # ds \<Rightarrow>
                 if d = CHR ''x'' then 4 else if d = CHR ''u'' then 6
                 else if d = CHR ''U'' then 10 else 2)
          else if (of_char c :: nat) < 0x80 then 1
          else (case first (of_char c) of Some (sz, lo, hi) \<Rightarrow> sz | None \<Rightarrow> 0))"

definition tok_src :: "string \<Rightarrow> string" where
  "tok_src x =
     (case x of
        [] \<Rightarrow> []
      | c # cs \<Rightarrow>
          if c = CHR 0x5C then
            (case cs of
               [] \<Rightarrow> []
             | d # ds \<Rightarrow>
                 if d = CHR ''x'' then [char_of (hexval (take 2 ds))]
                 else if d = CHR ''u'' then AppendRune [] (hexval (take 4 ds))
                 else if d = CHR ''U'' then AppendRune [] (hexval (take 8 ds))
                 else (case map_of (map (\<lambda>(c, l). (l, c)) named_escapes) d of
                         Some c \<Rightarrow> [c] | None \<Rightarrow> [d]))
          else take (tok_len x) x)"

section \<open>Values of the constants and contents of the tables\<close>

lemmas ErrorCategory_consts_defs =
  ErrorCategoryNil_def ErrorCategoryLimit_def ErrorCategoryGrammar_def
  ErrorCategorySemantic_def ErrorCategoryRuntime_def

lemma ErrorCategory_values:
  "ErrorCategoryNil = 0" "ErrorCategoryLimit = 1" "ErrorCategoryGrammar = 2"
  "ErrorCategorySemantic = 3" "ErrorCategoryRuntime = 4"
  by (simp_all add: ErrorCategory_consts_defs ErrorCategory_block_def iota_def)

lemmas ErrorCode_consts_defs =
  ErrorCodeNil_def ErrorCodeDepthLimitReached_def ErrorCodeParser_def
  ErrorCodeInvalidIntegerSyntax_def ErrorCodeInvalidNumberSyntax_def
  ErrorCodeIntegerOutOfRange_def ErrorCodeNumberOutOfRange_def
  ErrorCodeFractionalPartTooLong_def ErrorCodeEscapeSequenceTooShort_def
  ErrorCodeInvalidUnicodeCodePoint_def ErrorCodeUnknownEscapeSequence_def
  ErrorCodeInvalidBytesSize_def ErrorCodeInvalidIntSize_def ErrorCodeInvalidUintSize_def
  ErrorCodeInvalidFixedSize_def ErrorCodeInvalidUfixedSize_def
  ErrorCodeInvalidFixedFractionalDigits_def ErrorCodeInvalidUfixedFractionalDigits_def
  ErrorCodeInvalidDataType_def ErrorCodeOverflow_def ErrorCodeUnderflow_def
  ErrorCodeIndexOutOfRange_def ErrorCodeInvalidCastType_def ErrorCodeDividedByZero_def

lemma ErrorCode_values:
  "ErrorCodeNil = 0" "ErrorCodeDepthLimitReached = 1" "ErrorCodeParser = 2"
  "ErrorCodeInvalidIntegerSyntax = 3" "ErrorCodeInvalidNumberSyntax = 4"
  "ErrorCodeIntegerOutOfRange = 5" "ErrorCodeNumberOutOfRange = 6"
  "ErrorCodeFractionalPartTooLong = 7" "ErrorCodeEscapeSequenceTooShort = 8"
  "ErrorCodeInvalidUnicodeCodePoint = 9" "ErrorCodeUnknownEscapeSequence = 10"
  "ErrorCodeInvalidBytesSize = 11" "ErrorCodeInvalidIntSize = 12"
  "ErrorCodeInvalidUintSize = 13" "ErrorCodeInvalidFixedSize = 14"
  "ErrorCodeInvalidUfixedSize = 15" "ErrorCodeInvalidFixedFractionalDigits = 16"
  "ErrorCodeInvalidUfixedFractionalDigits = 17" "ErrorCodeInvalidDataType = 18"
  "ErrorCodeOverflow = 19" "ErrorCodeUnderflow = 20" "ErrorCodeIndexOutOfRange = 21"
  "ErrorCodeInvalidCastType = 22" "ErrorCodeDividedByZero = 23"
  by (simp_all add: ErrorCode_consts_defs ErrorCode_block_def iota_def)

lemma errorCategoryMap_eq:
  "errorCategoryMap = ['''', ''limit'', ''grammar'', ''semantic'', ''runtime'']"
  by (simp add: errorCategoryMap_def array_literal_def ErrorCategory_values upt_rec)

lemma errorCodeMap_eq:
  "errorCodeMap =
     ['''', ''depth limit reached'', ''parser error'', ''invalid integer syntax'',
      ''invalid number syntax'', ''integer out of range'', ''number out of range'',
      ''fractional part too long'', ''escape sequence too short'',
      ''invalid unicode code point'', ''unknown escape sequence'', ''invalid bytes size'',
      ''invalid int size'', ''invalid uint size'', ''invalid fixed size'',
      ''invalid ufixed size'', ''invalid fixed fractional digits'',
      ''invalid ufixed fractional digits'', ''invalid data type'', ''overflow'',
      ''underflow'', ''index out of range'', ''invalid cast type'', ''divide by zero'']"
  by (simp add: errorCodeMap_def array_literal_def ErrorCode_values upt_rec)

lemma index_array_nth: "i < length a \<Longrightarrow> index_array a i = Inr (a ! i)"
  by (simp add: index_array_def)

lemma index_array_panic: "length a \<le> i \<Longrightarrow> index_array a i = Inl (IndexOutOfRange i (length a))"
  by (simp add: index_array_def)

lemma errorCategoryMap_names:
  "list_all (\<lambda>s. s \<noteq> [] \<and> lowercase_name s) (tl errorCategoryMap)"
  by (simp add: errorCategoryMap_eq lowercase_name_def)

lemma errorCodeMap_names:
  "list_all (\<lambda>s. s \<noteq> [] \<and> lowercase_name s) (tl errorCodeMap)"
  by (simp add: errorCodeMap_eq lowercase_name_def)

lemma tl_names_nth:
  assumes "list_all P (tl xs)" and "1 \<le> i" and "i < length xs"
  shows "P (xs ! i)"
proof -
  obtain j where j: "i = Suc j" using assms(2) by (cases i) auto
  have "j < length (tl xs)" using assms(3) j by simp
  then have "P (tl xs ! j)" using assms(1) by (simp add: list_all_length)
  then show ?thesis using j assms(3) by (simp add: nth_tl)
qed

text \<open>
  Claim C3. The constants have the values of the frozen reference table: the categories
  Nil, Limit, Grammar, Semantic, Runtime are 0 to 4, and the codes are numbered
  consecutively from \<^verbatim>\<open>ErrorCodeNil\<close> = 0 and \<^verbatim>\<open>ErrorCodeDepthLimitReached\<close> = 1 up to
  \<^verbatim>\<open>ErrorCodeDividedByZero\<close> = 23.
\<close>

theorem constants_match_reference_table:
  "[ErrorCategoryNil, ErrorCategoryLimit, ErrorCategoryGrammar, ErrorCategorySemantic,
    ErrorCategoryRuntime] = [0, 1, 2, 3, 4]
   \<and> [ErrorCodeNil, ErrorCodeDepthLimitReached, ErrorCodeParser,
      ErrorCodeInvalidIntegerSyntax, ErrorCodeInvalidNumberSyntax,
      ErrorCodeIntegerOutOfRange, ErrorCodeNumberOutOfRange,
      ErrorCodeFractionalPartTooLong, ErrorCodeEscapeSequenceTooShort,
      ErrorCodeInvalidUnicodeCodePoint, ErrorCodeUnknownEscapeSequence,
      ErrorCodeInvalidBytesSize, ErrorCodeInvalidIntSize, ErrorCodeInvalidUintSize,
      ErrorCodeInvalidFixedSize, ErrorCodeInvalidUfixedSize,
      ErrorCodeInvalidFixedFractionalDigits, ErrorCodeInvalidUfixedFractionalDigits,
      ErrorCodeInvalidDataType, ErrorCodeOverflow, ErrorCodeUnderflow,
      ErrorCodeIndexOutOfRange, ErrorCodeInvalidCastType, ErrorCodeDividedByZero]
     = [0, 1, 2, 3, 4, 5, 6, 7, 8, 9, 10, 11, 12, 13, 14, 15, 16, 17, 18, 19, 20, 21, 22, 23]"
  by (simp add: ErrorCategory_values ErrorCode_values)

lemma ErrorCategory_Error_cases:
  "ErrorCategory_Error c =
     (if unat c < 5 then Inr (errorCategoryMap ! unat c) else Inl (IndexOutOfRange (unat c) 5))"
  by (simp add: ErrorCategory_Error_def index_array_def errorCategoryMap_eq)

lemma ErrorCode_Error_cases:
  "ErrorCode_Error c =
     (if unat c < 24 then Inr (errorCodeMap ! unat c) else Inl (IndexOutOfRange (unat c) 24))"
  by (simp add: ErrorCode_Error_def index_array_def errorCodeMap_eq)

text \<open>
  Claim C1, as amended. For every defined category (Limit to Runtime) and every defined
  code (DepthLimitReached to DividedByZero) the name lookup returns a nonempty lowercase
  name and does not panic; for Nil it returns the empty string; for every value above
  the last defined constant there is no fallback name: the index expression panics with
  the index and the table's length (5 for categories, 24 for codes).
\<close>

theorem name_lookup_defined_or_panics:
  "(ErrorCategoryLimit \<le> c \<and> c \<le> ErrorCategoryRuntime \<longrightarrow>
      (\<exists>s. ErrorCategory_Error c = Inr s \<and> s = errorCategoryMap ! unat c \<and> s \<noteq> []
         \<and> lowercase_name s))
   \<and> (c = ErrorCategoryNil \<longrightarrow> ErrorCategory_Error c = Inr [])
   \<and> (ErrorCategoryRuntime < c \<longrightarrow>
        ErrorCategory_Error c = Inl (IndexOutOfRange (unat c) 5))
   \<and> (ErrorCodeDepthLimitReached \<le> d \<and> d \<le> ErrorCodeDividedByZero \<longrightarrow>
        (\<exists>s. ErrorCode_Error d = Inr s \<and> s = errorCodeMap ! unat d \<and> s \<noteq> []
           \<and> lowercase_name s))
   \<and> (d = ErrorCodeNil \<longrightarrow> ErrorCode_Error d = Inr [])
   \<and> (ErrorCodeDividedByZero < d \<longrightarrow>
        ErrorCode_Error d = Inl (IndexOutOfRange (unat d) 24))"
proof -
  have cat_defined: "\<exists>s. ErrorCategory_Error c = Inr s \<and> s = errorCategoryMap ! unat c
      \<and> s \<noteq> [] \<and> lowercase_name s"
    if "ErrorCategoryLimit \<le> c" "c \<le> ErrorCategoryRuntime"
  proof -
    from that have b: "1 \<le> unat c" "unat c < length errorCategoryMap"
      by (simp_all add: ErrorCategory_values word_le_nat_alt errorCategoryMap_eq)
    from tl_names_nth [OF errorCategoryMap_names b]
    show ?thesis using b by (simp add: ErrorCategory_Error_def index_array_def)
  qed
  have code_defined: "\<exists>s. ErrorCode_Error d = Inr s \<and> s = errorCodeMap ! unat d
      \<and> s \<noteq> [] \<and> lowercase_name s"
    if "ErrorCodeDepthLimitReached \<le> d" "d \<le> ErrorCodeDividedByZero"
  proof -
    from that have b: "1 \<le> unat d" "unat d < length errorCodeMap"
      by (simp_all add: ErrorCode_values word_le_nat_alt errorCodeMap_eq)
    from tl_names_nth [OF errorCodeMap_names b]
    show ?thesis using b by (simp add: ErrorCode_Error_def index_array_def)
  qed
  have cat_nil: "ErrorCategory_Error ErrorCategoryNil = Inr []"
    by (simp add: ErrorCategory_Error_cases ErrorCategory_values errorCategoryMap_eq)
  have code_nil: "ErrorCode_Error ErrorCodeNil = Inr []"
    by (simp add: ErrorCode_Error_cases ErrorCode_values errorCodeMap_eq)
  have cat_beyond: "ErrorCategory_Error c = Inl (IndexOutOfRange (unat c) 5)"
    if "ErrorCategoryRuntime < c"
    using that by (simp add: ErrorCategory_Error_cases ErrorCategory_values word_less_nat_alt)
  have code_beyond: "ErrorCode_Error d = Inl (IndexOutOfRange (unat d) 24)"
    if "ErrorCodeDividedByZero < d"
    using that by (simp add: ErrorCode_Error_cases ErrorCode_values word_less_nat_alt)
  show ?thesis
    using cat_defined code_defined cat_nil code_nil cat_beyond code_beyond by blast
qed

theorem name_lookup_defined_or_panics_witness:
  "ErrorCategory_Error 4 = Inr ''runtime''
   \<and> ErrorCategory_Error 0 = Inr []
   \<and> ErrorCategory_Error 5 = Inl (IndexOutOfRange 5 5)
   \<and> ErrorCode_Error 23 = Inr ''divide by zero''
   \<and> ErrorCode_Error 0 = Inr []
   \<and> ErrorCode_Error 65535 = Inl (IndexOutOfRange 65535 24)"
  using name_lookup_defined_or_panics [of 4 23] name_lookup_defined_or_panics [of 0 0]
    name_lookup_defined_or_panics [of 5 65535]
  by (simp add: ErrorCategory_values ErrorCode_values ErrorCategory_Error_cases
      ErrorCode_Error_cases errorCategoryMap_eq errorCodeMap_eq)

text \<open>
  The claim C1 as first stated asks for a fallback name on undefined values. The first
  value after the last constant of each enumeration panics instead.
\<close>

theorem name_lookup_fallback_counterexample:
  "ErrorCategory_Error 5 = Inl (IndexOutOfRange 5 5)
   \<and> ErrorCode_Error 24 = Inl (IndexOutOfRange 24 24)"
  by (simp add: ErrorCategory_Error_cases ErrorCode_Error_cases)

section \<open>Rendering of an Error\<close>

lemma handleMethods_s_recovers: "\<exists>s. handleMethods_s False r = Inr s"
  by (cases r) (simp_all add: handleMethods_s_def)

lemma Sprintf_category_code_returns: "\<exists>s. Sprintf_category_code c d = Inr s"
proof -
  obtain cname where c: "handleMethods_s False (ErrorCategory_Error c) = Inr cname"
    using handleMethods_s_recovers by blast
  obtain dname where d: "handleMethods_s False (ErrorCode_Error d) = Inr dname"
    using handleMethods_s_recovers by blast
  show ?thesis by (simp add: Sprintf_category_code_def c d)
qed

lemma Error_Error_closed_form:
  "Sprintf_category_code (Category e) (Code e) = Inr s \<Longrightarrow>
   Error_Error tables e = Inr (location_clause e @ s @ debug_clauses tables e)"
  by (simp add: Error_Error_def Let_def Builder_new_def WriteString_def Builder_String_def
      Sprintf_offset_def Sprintf_length_def location_clause_def debug_clauses_def)

lemma Error_Error_returns: "\<exists>s. Error_Error tables e = Inr s"
  using Sprintf_category_code_returns [of "Category e" "Code e"]
  by (auto simp: Error_Error_closed_form)

lemma Error_Error_Render: "Error_Error tables e = Inr (Render tables e)"
  using Error_Error_returns [of tables e] by (auto simp: Render_def)

text \<open>
  Claim C2. Whatever the fields of an \<^verbatim>\<open>Error\<close> are (Nil or undefined category and code
  included), \<^verbatim>\<open>Error.Error\<close> returns a string and no panic leaves it: the only panic
  that can arise, in the name lookup of an undefined value, is raised inside the
  printer's \<^verbatim>\<open>%s\<close> verb, which recovers it.
\<close>

theorem Error_Error_never_faults: "\<exists>s. Error_Error tables e = Inr s"
  using Sprintf_category_code_returns [of "Category e" "Code e"]
  by (auto simp: Error_Error_closed_form)

lemma Sprintf_category_code_prefix:
  "Sprintf_category_code c d = Inr s \<Longrightarrow> \<exists>rest. s = '', category '' @ rest"
  by (auto simp: Sprintf_category_code_def split: sum.splits)

text \<open>
  Claim C4. The rendering begins with the location clause: \<^verbatim>\<open>offset <Position>\<close> when
  Position or Length is positive, followed by \<^verbatim>\<open>, length <Length>\<close> exactly when Length
  is positive; \<^verbatim>\<open>unknown location\<close> when both are zero. The category clause follows it.
\<close>

theorem rendering_begins_with_location:
  "\<exists>rest. Error_Error tables e =
     Inr ((if 0 < Position e \<or> 0 < Length e then
             ''offset '' @ fmtInteger (unat (Position e))
               @ (if 0 < Length e then '', length '' @ fmtInteger (unat (Length e)) else [])
           else ''unknown location'')
          @ '', category '' @ rest)"
proof -
  obtain s where s: "Sprintf_category_code (Category e) (Code e) = Inr s"
    using Sprintf_category_code_returns by blast
  then obtain rest where "s = '', category '' @ rest"
    using Sprintf_category_code_prefix by blast
  then show ?thesis
    using Error_Error_closed_form [OF s, of tables]
    by (simp add: location_clause_def del: append_assoc)
qed

lemmas names_eval = ErrorCategory_Error_cases ErrorCode_Error_cases errorCategoryMap_eq
  errorCodeMap_eq ErrorCategory_values ErrorCode_values

lemmas render_eval = Error_Error_def Let_def Builder_new_def WriteString_def
  Builder_String_def Sprintf_offset_def Sprintf_length_def Sprintf_category_code_def
  handleMethods_s_def fmtInteger.simps digits_def

text \<open>
  Claim C6. The error at position 10 with length 0, category Grammar, code Parser and
  empty token, prefix and message renders as
  \<^verbatim>\<open>offset 10, category 2 (grammar), code 2 (parser error)\<close>.
\<close>

theorem grammar_parser_error_rendering:
  "Error_Error tables
     \<lparr>Position = 10, Length = 0, Category = ErrorCategoryGrammar, Code = ErrorCodeParser,
      Token = [], Prefix = [], Message = []\<rparr>
   = Inr ''offset 10, category 2 (grammar), code 2 (parser error)''"
  by (simp add: render_eval names_eval)

text \<open>
  Claim C8. The all-zero value \<^verbatim>\<open>Error{}\<close> renders as
  \<^verbatim>\<open>unknown location, category 0 (), code 0 ()\<close>: the names looked up for the Nil
  category and the Nil code are empty, and there is no length, token, hint or message
  clause.
\<close>

theorem zero_error_rendering:
  "Error_Error tables
     \<lparr>Position = 0, Length = 0, Category = 0, Code = 0,
      Token = [], Prefix = [], Message = []\<rparr>
   = Inr ''unknown location, category 0 (), code 0 ()''"
  by (simp add: render_eval names_eval)

text \<open>
  With an undefined category and code, the names are replaced by the printer's report
  of the recovered panics.
\<close>

theorem Error_Error_never_faults_witness:
  "Error_Error (\<lambda>r. False)
     \<lparr>Position = 0, Length = 0, Category = 5, Code = 65535,
      Token = [], Prefix = [], Message = []\<rparr>
   = Inr (''unknown location, category 5 (%!s(PANIC=Error method: runtime error: ''
          @ ''index out of range [5] with length 5)), code 65535 (%!s(PANIC=Error method: ''
          @ ''runtime error: index out of range [65535] with length 24))'')"
  using Error_Error_never_faults
    [of "\<lambda>r. False"
        "\<lparr>Position = 0, Length = 0, Category = 5, Code = 65535,
          Token = [], Prefix = [], Message = []\<rparr>"]
  by (simp add: render_eval names_eval boundsError_Error_def)

section \<open>Rendering of an ErrorList\<close>

lemma ErrorList_loop_rest:
  "0 < i \<Longrightarrow> i \<le> length e \<Longrightarrow>
   ErrorList_loop tables e i b =
     Inr (b @ concat (map (\<lambda>x. CHR 0x0A # Render tables x) (drop i e)))"
proof (induction "length e - i" arbitrary: i b)
  case 0
  then show ?case
    by (simp add: ErrorList_loop.simps [of tables e i b] Builder_String_def)
next
  case (Suc n)
  then have i: "i < length e" by simp
  have IH: "ErrorList_loop tables e (Suc i) b' =
      Inr (b' @ concat (map (\<lambda>x. CHR 0x0A # Render tables x) (drop (Suc i) e)))" for b'
    using Suc.hyps(1) [of "Suc i" b'] Suc.hyps(2) i by simp
  have "drop i e = e ! i # drop (Suc i) e"
    using i by (simp add: Cons_nth_drop_Suc)
  then show ?case
    using i Suc.prems(1)
    by (simp add: ErrorList_loop.simps [of tables e i b] Error_Error_Render IH
        WriteString_def WriteByte_def Let_def)
qed

lemma join_lines_Cons: "join_lines (x # xs) = x @ concat (map (\<lambda>y. CHR 0x0A # y) xs)"
  by (induction xs arbitrary: x) simp_all

lemma join_lines_append:
  "xs \<noteq> [] \<Longrightarrow> ys \<noteq> [] \<Longrightarrow> join_lines (xs @ ys) = join_lines xs @ [CHR 0x0A] @ join_lines ys"
  by (cases xs; cases ys) (simp_all add: join_lines_Cons)

lemma ErrorList_Error_join:
  "ErrorList_Error tables e = Inr (join_lines (map (Render tables) e))"
proof (cases e)
  case Nil
  then show ?thesis
    by (simp add: ErrorList_Error_def ErrorList_loop.simps [of tables "[]"]
        Builder_String_def Builder_new_def)
next
  case (Cons x xs)
  have "ErrorList_loop tables (x # xs) 0 Builder_new =
      ErrorList_loop tables (x # xs) (Suc 0) (Render tables x)"
    by (simp add: ErrorList_loop.simps [of tables "x # xs" 0] Error_Error_Render
        WriteString_def Builder_new_def Let_def)
  also have "\<dots> = Inr (Render tables x @ concat (map (\<lambda>x. CHR 0x0A # Render tables x) xs))"
    by (simp add: ErrorList_loop_rest)
  finally show ?thesis
    using Cons by (simp add: ErrorList_Error_def join_lines_Cons comp_def)
qed

text \<open>
  Claim C5. \<^verbatim>\<open>ErrorList.Error\<close> joins the renderings of the elements, in order, with
  one line break between neighbours: the empty list renders to the empty string, and a
  list of two elements to the first rendering, a line break and the second rendering.
\<close>

theorem ErrorList_rendering_joins_lines:
  "ErrorList_Error tables [] = Inr []
   \<and> (\<exists>r1 r2. Error_Error tables a = Inr r1 \<and> Error_Error tables b = Inr r2
        \<and> ErrorList_Error tables [a, b] = Inr (r1 @ [CHR 0x0A] @ r2))
   \<and> (\<exists>rs. map (Error_Error tables) l = map Inr rs
        \<and> ErrorList_Error tables l = Inr (join_lines rs))"
proof (intro conjI)
  show "ErrorList_Error tables [] = Inr []"
    by (simp add: ErrorList_Error_join)
  show "\<exists>r1 r2. Error_Error tables a = Inr r1 \<and> Error_Error tables b = Inr r2
        \<and> ErrorList_Error tables [a, b] = Inr (r1 @ [CHR 0x0A] @ r2)"
    by (simp add: ErrorList_Error_join Error_Error_Render)
  have "map (Error_Error tables) l = map Inr (map (Render tables) l)"
    by (simp add: Error_Error_Render)
  then show "\<exists>rs. map (Error_Error tables) l = map Inr rs
        \<and> ErrorList_Error tables l = Inr (join_lines rs)"
    using ErrorList_Error_join by blast
qed

text \<open>
  Claim C10. For non-empty lists \<open>l1\<close> and \<open>l2\<close>, the rendering of \<open>l1 @ l2\<close> is the
  rendering of \<open>l1\<close>, a line break, and the rendering of \<open>l2\<close>.
\<close>

theorem ErrorList_rendering_of_concatenation:
  assumes "l1 \<noteq> []" and "l2 \<noteq> []"
  shows "\<exists>r1 r2. ErrorList_Error tables l1 = Inr r1 \<and> ErrorList_Error tables l2 = Inr r2
     \<and> ErrorList_Error tables (l1 @ l2) = Inr (r1 @ [CHR 0x0A] @ r2)"
  using assms by (simp add: ErrorList_Error_join join_lines_append)

theorem ErrorList_rendering_of_concatenation_witness:
  "[\<lparr>Position = 0, Length = 0, Category = 0, Code = 0,
      Token = [], Prefix = [], Message = []\<rparr>] \<noteq> []
   \<and> [\<lparr>Position = 10, Length = 0, Category = 2, Code = 2,
        Token = [], Prefix = [], Message = []\<rparr>] \<noteq> []
   \<and> ErrorList_Error (\<lambda>r. False)
       ([\<lparr>Position = 0, Length = 0, Category = 0, Code = 0,
           Token = [], Prefix = [], Message = []\<rparr>]
        @ [\<lparr>Position = 10, Length = 0, Category = 2, Code = 2,
             Token = [], Prefix = [], Message = []\<rparr>])
     = Inr (''unknown location, category 0 (), code 0 ()'' @ [CHR 0x0A]
            @ ''offset 10, category 2 (grammar), code 2 (parser error)'')"
  using ErrorList_rendering_of_concatenation
    [of "[\<lparr>Position = 0, Length = 0, Category = 0, Code = 0,
           Token = [], Prefix = [], Message = []\<rparr>]"
        "[\<lparr>Position = 10, Length = 0, Category = 2, Code = 2,
           Token = [], Prefix = [], Message = []\<rparr>]" "\<lambda>r. False"]
  by (simp add: ErrorList_Error_join Render_def render_eval names_eval)

section \<open>Rendering has no side effect\<close>

lemma Sprintf_category_code_st_eq:
  "Sprintf_category_code_st c d \<sigma> =
     (case handleMethods_s False (index_array (var_errorCategoryMap \<sigma>) (unat c)) of
        Inl p \<Rightarrow> Inl p
      | Inr cname \<Rightarrow>
          (case handleMethods_s False (index_array (var_errorCodeMap \<sigma>) (unat d)) of
             Inl p \<Rightarrow> Inl p
           | Inr dname \<Rightarrow>
               Inr ('', category '' @ fmtInteger (unat c) @ '' ('' @ cname @ ''), code ''
                      @ fmtInteger (unat d) @ '' ('' @ dname @ '')'')),
      \<sigma>)"
  by (simp add: Sprintf_category_code_st_def ErrorCategory_Error_st_def ErrorCode_Error_st_def
      split: sum.split)

lemma Sprintf_category_code_st_state: "snd (Sprintf_category_code_st c d \<sigma>) = \<sigma>"
  by (simp add: Sprintf_category_code_st_eq)

lemma Sprintf_category_code_st_init:
  "fst (Sprintf_category_code_st c d (package_init h)) = Sprintf_category_code c d"
  by (simp add: Sprintf_category_code_st_eq Sprintf_category_code_def package_init_def
      ErrorCategory_Error_def ErrorCode_Error_def split: sum.split)

lemma Error_Error_st_state: "snd (Error_Error_st tables e \<sigma>) = \<sigma>"
  using Sprintf_category_code_st_state [of "Category e" "Code e" \<sigma>]
  by (cases "Sprintf_category_code_st (Category e) (Code e) \<sigma>")
    (simp add: Error_Error_st_def Let_def split: sum.split)

lemma Error_Error_st_init:
  "fst (Error_Error_st tables e (package_init h)) = Error_Error tables e"
  using Sprintf_category_code_st_init [of "Category e" "Code e" h]
  by (cases "Sprintf_category_code_st (Category e) (Code e) (package_init h)")
    (simp add: Error_Error_st_def Error_Error_def Let_def split: sum.split)

lemma ErrorList_loop_st_state: "snd (ErrorList_loop_st tables e i b \<sigma>) = \<sigma>"
proof (induction "Len e - i" arbitrary: i b)
  case 0
  then show ?case by (simp add: ErrorList_loop_st.simps [of tables e i b \<sigma>])
next
  case (Suc n)
  then have i: "i < Len e" by simp
  obtain r where r: "Error_Error_st tables (heap \<sigma> (Data e + i)) \<sigma> = (r, \<sigma>)"
    using Error_Error_st_state [of tables "heap \<sigma> (Data e + i)" \<sigma>]
    by (cases "Error_Error_st tables (heap \<sigma> (Data e + i)) \<sigma>") simp
  have IH: "snd (ErrorList_loop_st tables e (Suc i) b' \<sigma>) = \<sigma>" for b'
    using Suc.hyps(1) [of "Suc i" b'] Suc.hyps(2) by simp
  show ?case
    using i IH by (auto simp: ErrorList_loop_st.simps [of tables e i b \<sigma>] r Let_def
        split: sum.split)
qed

lemma length_elements: "length (elements \<sigma> e) = Len e"
  by (simp add: elements_def)

lemma nth_elements: "i < Len e \<Longrightarrow> elements \<sigma> e ! i = heap \<sigma> (Data e + i)"
  by (simp add: elements_def)

lemma ErrorList_loop_st_init:
  "fst (ErrorList_loop_st tables e i b (package_init h))
     = ErrorList_loop tables (elements (package_init h) e) i b"
proof (induction "Len e - i" arbitrary: i b)
  case 0
  then show ?case
    by (simp add: ErrorList_loop_st.simps [of tables e i b]
        ErrorList_loop.simps [of tables _ i b] length_elements)
next
  case (Suc n)
  let ?\<sigma> = "package_init h"
  have i: "i < Len e" using Suc.hyps(2) by simp
  have r: "Error_Error_st tables (heap ?\<sigma> (Data e + i)) ?\<sigma>
      = (Error_Error tables (heap ?\<sigma> (Data e + i)), ?\<sigma>)"
    using Error_Error_st_state [of tables "heap ?\<sigma> (Data e + i)" ?\<sigma>]
      Error_Error_st_init [of tables "heap ?\<sigma> (Data e + i)" h]
    by (cases "Error_Error_st tables (heap ?\<sigma> (Data e + i)) ?\<sigma>") simp
  have IH: "fst (ErrorList_loop_st tables e (Suc i) b' ?\<sigma>)
      = ErrorList_loop tables (elements ?\<sigma> e) (Suc i) b'" for b'
    using Suc.hyps(1) [of "Suc i" b'] Suc.hyps(2) by simp
  show ?case
    using i IH
    by (auto simp: ErrorList_loop_st.simps [of tables e i b ?\<sigma>]
        ErrorList_loop.simps [of tables "elements ?\<sigma> e" i b] r Let_def length_elements
        nth_elements split: sum.split)
qed

text \<open>
  Claim C9. Rendering is deterministic and has no side effect. From any state, a call
  of \<^verbatim>\<open>Error.Error\<close> or of \<^verbatim>\<open>ErrorList.Error\<close> leaves the package variables and the heap
  as they were, and a second call on the same value returns the same result. With the
  package variables as initialised, the result is the rendering of the fields alone:
  of the \<^verbatim>\<open>Error\<close> value, and for a list of the values the slice holds.
\<close>

theorem rendering_is_pure:
  "(case Error_Error_st tables e \<sigma> of (r1, \<sigma>1) \<Rightarrow>
      (case Error_Error_st tables e \<sigma>1 of (r2, \<sigma>2) \<Rightarrow> r1 = r2 \<and> \<sigma>1 = \<sigma> \<and> \<sigma>2 = \<sigma>))
   \<and> (case ErrorList_Error_st tables l \<sigma> of (r1, \<sigma>1) \<Rightarrow>
        (case ErrorList_Error_st tables l \<sigma>1 of (r2, \<sigma>2) \<Rightarrow> r1 = r2 \<and> \<sigma>1 = \<sigma> \<and> \<sigma>2 = \<sigma>))
   \<and> fst (Error_Error_st tables e (package_init h)) = Error_Error tables e
   \<and> fst (ErrorList_Error_st tables l (package_init h))
       = ErrorList_Error tables (elements (package_init h) l)"
proof (intro conjI)
  show "case Error_Error_st tables e \<sigma> of (r1, \<sigma>1) \<Rightarrow>
      (case Error_Error_st tables e \<sigma>1 of (r2, \<sigma>2) \<Rightarrow> r1 = r2 \<and> \<sigma>1 = \<sigma> \<and> \<sigma>2 = \<sigma>)"
    using Error_Error_st_state [of tables e \<sigma>]
    by (cases "Error_Error_st tables e \<sigma>") auto
  show "case ErrorList_Error_st tables l \<sigma> of (r1, \<sigma>1) \<Rightarrow>
        (case ErrorList_Error_st tables l \<sigma>1 of (r2, \<sigma>2) \<Rightarrow> r1 = r2 \<and> \<sigma>1 = \<sigma> \<and> \<sigma>2 = \<sigma>)"
    using ErrorList_loop_st_state [of tables l 0 Builder_new \<sigma>]
    by (cases "ErrorList_Error_st tables l \<sigma>") (auto simp: ErrorList_Error_st_def)
  show "fst (Error_Error_st tables e (package_init h)) = Error_Error tables e"
    by (rule Error_Error_st_init)
  show "fst (ErrorList_Error_st tables l (package_init h))
       = ErrorList_Error tables (elements (package_init h) l)"
    by (simp add: ErrorList_Error_st_def ErrorList_Error_def ErrorList_loop_st_init)
qed

theorem rendering_is_pure_witness:
  "Error_Error_st (\<lambda>r. False)
     \<lparr>Position = 10, Length = 0, Category = 2, Code = 2,
      Token = [], Prefix = [], Message = []\<rparr>
     (package_init (\<lambda>a. \<lparr>Position = of_nat a, Length = 0, Category = 0, Code = 0,
        Token = [], Prefix = [], Message = []\<rparr>))
   = (Inr ''offset 10, category 2 (grammar), code 2 (parser error)'',
      package_init (\<lambda>a. \<lparr>Position = of_nat a, Length = 0, Category = 0, Code = 0,
        Token = [], Prefix = [], Message = []\<rparr>))
   \<and> ErrorList_Error_st (\<lambda>r. False) \<lparr>Data = 0, Len = 2, Cap = 2\<rparr>
       (package_init (\<lambda>a. \<lparr>Position = of_nat a, Length = 0, Category = 0, Code = 0,
          Token = [], Prefix = [], Message = []\<rparr>))
     = (Inr (''unknown location, category 0 (), code 0 ()'' @ [CHR 0x0A]
             @ ''offset 1, category 0 (), code 0 ()''),
        package_init (\<lambda>a. \<lparr>Position = of_nat a, Length = 0, Category = 0, Code = 0,
          Token = [], Prefix = [], Message = []\<rparr>))"
  using rendering_is_pure
    [where tables = "\<lambda>r. False"
       and e = "\<lparr>Position = 10, Length = 0, Category = 2, Code = 2,
          Token = [], Prefix = [], Message = []\<rparr>"
       and \<sigma> = "package_init (\<lambda>a. \<lparr>Position = of_nat a, Length = 0, Category = 0,
          Code = 0, Token = [], Prefix = [], Message = []\<rparr>)"
       and l = "\<lparr>Data = 0, Len = 2, Cap = 2\<rparr>"
       and h = "\<lambda>a. \<lparr>Position = of_nat a, Length = 0, Category = 0, Code = 0,
          Token = [], Prefix = [], Message = []\<rparr>"]
  by (simp add: Error_Error_st_def Sprintf_category_code_st_eq ErrorList_Error_st_def
      ErrorList_loop_st.simps package_init_def index_array_def errorCategoryMap_eq
      errorCodeMap_eq Let_def Builder_new_def WriteString_def WriteByte_def
      Builder_String_def Sprintf_offset_def Sprintf_length_def handleMethods_s_def
      fmtInteger.simps digits_def)

section \<open>Decoding and encoding of UTF-8\<close>

text \<open>
  A decoded sequence of two to four bytes yields a valid rune beyond ASCII whose
  encoding is the sequence itself; every other outcome at a byte beyond ASCII is the
  error rune with width one.
\<close>

lemma digit_div: fixes q x k :: nat shows "x < k \<Longrightarrow> (q * k + x) div k = q"
  by simp

lemma digit_mod: fixes q x k :: nat shows "x < k \<Longrightarrow> (q * k + x) mod k = x"
  by simp

lemma enc2:
  fixes b0 b1 r :: nat
  assumes b: "0xC2 \<le> b0" "b0 < 0xE0" "0x80 \<le> b1" "b1 \<le> 0xBF"
    and r: "r = b0 mod 32 * 64 + b1 mod 64"
  shows "0x80 \<le> r \<and> r \<le> 0x7FF \<and> 0xC0 + r div 64 = b0 \<and> 0x80 + r mod 64 = b1"
proof -
  obtain x where x: "b0 = 6 * 32 + x" "2 \<le> x" "x < 32"
    using b(1,2) by (intro that [of "b0 - 192"]) simp_all
  obtain y where y: "b1 = 2 * 64 + y" "y < 64"
    using b(3,4) by (intro that [of "b1 - 128"]) simp_all
  have "b0 mod 32 = x" unfolding x(1) using x(3) by (rule digit_mod)
  moreover have "b1 mod 64 = y" unfolding y(1) using y(2) by (rule digit_mod)
  ultimately have r': "r = x * 64 + y" using r by simp
  have "r div 64 = x" unfolding r' using y(2) by (rule digit_div)
  moreover have "r mod 64 = y" unfolding r' using y(2) by (rule digit_mod)
  ultimately show ?thesis using x y r' by simp
qed

lemma enc3:
  fixes b0 b1 b2 r lo hi :: nat
  assumes b: "0xE0 \<le> b0" "b0 \<le> 0xEF" "lo \<le> b1" "b1 \<le> hi" "0x80 \<le> lo" "hi \<le> 0xBF"
    "0x80 \<le> b2" "b2 \<le> 0xBF"
    and e0: "b0 = 0xE0 \<Longrightarrow> 0xA0 \<le> lo" and ed: "b0 = 0xED \<Longrightarrow> hi \<le> 0x9F"
    and r: "r = b0 mod 16 * 4096 + b1 mod 64 * 64 + b2 mod 64"
  shows "0x800 \<le> r \<and> r \<le> 0xFFFF \<and> \<not> (0xD800 \<le> r \<and> r \<le> 0xDFFF)
    \<and> 0xE0 + r div 4096 = b0 \<and> 0x80 + r div 64 mod 64 = b1 \<and> 0x80 + r mod 64 = b2"
proof -
  obtain x where x: "b0 = 14 * 16 + x" "x < 16"
    using b(1,2) by (intro that [of "b0 - 224"]) simp_all
  obtain y where y: "b1 = 2 * 64 + y" "y < 64"
    using b(3-6) by (intro that [of "b1 - 128"]) simp_all
  obtain z where z: "b2 = 2 * 64 + z" "z < 64"
    using b(7,8) by (intro that [of "b2 - 128"]) simp_all
  have "b0 mod 16 = x" unfolding x(1) using x(2) by (rule digit_mod)
  moreover have "b1 mod 64 = y" unfolding y(1) using y(2) by (rule digit_mod)
  moreover have "b2 mod 64 = z" unfolding z(1) using z(2) by (rule digit_mod)
  ultimately have r': "r = x * 4096 + y * 64 + z" using r by simp
  have x0: "x = 0 \<Longrightarrow> 32 \<le> y" using e0 x y b by simp
  have x13: "x = 13 \<Longrightarrow> y < 32" using ed x y b by simp
  have yz: "y * 64 + z < 4096" using y(2) z(2) by simp
  have "r = x * 4096 + (y * 64 + z)" using r' by simp
  then have d1: "r div 4096 = x" using digit_div [OF yz, of x] by simp
  have "r = (x * 64 + y) * 64 + z" using r' by simp
  then have d2: "r div 64 = x * 64 + y" and d3: "r mod 64 = z"
    using digit_div [OF z(2), of "x * 64 + y"] digit_mod [OF z(2), of "x * 64 + y"]
    by simp_all
  have d4: "(x * 64 + y) mod 64 = y" using y(2) by (rule digit_mod)
  have lo: "0x800 \<le> r" using r' x0 by (cases "x = 0") simp_all
  have hi: "r \<le> 0xFFFF" using r' x(2) y(2) z(2) by simp
  have sur: "\<not> (0xD800 \<le> r \<and> r \<le> 0xDFFF)"
  proof -
    consider "x \<le> 12" | "x = 13" | "14 \<le> x" by linarith
    then show ?thesis
    proof cases
      case 1 then show ?thesis using r' y(2) z(2) by simp
    next
      case 2 then show ?thesis using r' x13 z(2) by simp
    next
      case 3 then show ?thesis using r' by simp
    qed
  qed
  show ?thesis using lo hi sur d1 d2 d3 d4 x(1) y(1) z(1) by simp
qed

lemma enc4:
  fixes b0 b1 b2 b3 r lo hi :: nat
  assumes b: "0xF0 \<le> b0" "b0 \<le> 0xF4" "lo \<le> b1" "b1 \<le> hi" "0x80 \<le> lo" "hi \<le> 0xBF"
    "0x80 \<le> b2" "b2 \<le> 0xBF" "0x80 \<le> b3" "b3 \<le> 0xBF"
    and f0: "b0 = 0xF0 \<Longrightarrow> 0x90 \<le> lo" and f4: "b0 = 0xF4 \<Longrightarrow> hi \<le> 0x8F"
    and r: "r = b0 mod 8 * 262144 + b1 mod 64 * 4096 + b2 mod 64 * 64 + b3 mod 64"
  shows "0x10000 \<le> r \<and> r \<le> 0x10FFFF
    \<and> 0xF0 + r div 262144 = b0 \<and> 0x80 + r div 4096 mod 64 = b1
    \<and> 0x80 + r div 64 mod 64 = b2 \<and> 0x80 + r mod 64 = b3"
proof -
  obtain x where x: "b0 = 30 * 8 + x" "x \<le> 4"
    using b(1,2) by (intro that [of "b0 - 240"]) simp_all
  obtain y where y: "b1 = 2 * 64 + y" "y < 64"
    using b(3-6) by (intro that [of "b1 - 128"]) simp_all
  obtain z where z: "b2 = 2 * 64 + z" "z < 64"
    using b(7,8) by (intro that [of "b2 - 128"]) simp_all
  obtain u where u: "b3 = 2 * 64 + u" "u < 64"
    using b(9,10) by (intro that [of "b3 - 128"]) simp_all
  have x8: "x < 8" using x(2) by simp
  have "b0 mod 8 = x" unfolding x(1) using x8 by (rule digit_mod)
  moreover have "b1 mod 64 = y" unfolding y(1) using y(2) by (rule digit_mod)
  moreover have "b2 mod 64 = z" unfolding z(1) using z(2) by (rule digit_mod)
  moreover have "b3 mod 64 = u" unfolding u(1) using u(2) by (rule digit_mod)
  ultimately have r': "r = x * 262144 + y * 4096 + z * 64 + u" using r by simp
  have x0: "x = 0 \<Longrightarrow> 16 \<le> y" using f0 x y b by simp
  have x4: "x = 4 \<Longrightarrow> y < 16" using f4 x y b by simp
  have yzu: "y * 4096 + z * 64 + u < 262144" using y(2) z(2) u(2) by simp
  have "r = x * 262144 + (y * 4096 + z * 64 + u)" using r' by simp
  then have d1: "r div 262144 = x" using digit_div [OF yzu, of x] by simp
  have zu: "z * 64 + u < 4096" using z(2) u(2) by simp
  have "r = (x * 64 + y) * 4096 + (z * 64 + u)" using r' by simp
  then have d2: "r div 4096 = x * 64 + y" using digit_div [OF zu, of "x * 64 + y"] by simp
  have d2': "(x * 64 + y) mod 64 = y" using y(2) by (rule digit_mod)
  have "r = (x * 4096 + y * 64 + z) * 64 + u" using r' by simp
  then have d3: "r div 64 = (x * 64 + y) * 64 + z" and d4: "r mod 64 = u"
    using digit_div [OF u(2), of "x * 4096 + y * 64 + z"]
      digit_mod [OF u(2), of "x * 4096 + y * 64 + z"]
    by simp_all
  have d3': "((x * 64 + y) * 64 + z) mod 64 = z" using z(2) by (rule digit_mod)
  have lo: "0x10000 \<le> r" using r' x0 by (cases "x = 0") simp_all
  have hi: "r \<le> 0x10FFFF"
  proof (cases "x = 4")
    case True then show ?thesis using r' x4 z(2) u(2) by simp
  next
    case False then have "x \<le> 3" using x(2) by simp
    then show ?thesis using r' y(2) z(2) u(2) by simp
  qed
  show ?thesis using lo hi d1 d2 d2' d3 d3' d4 x(1) y(1) z(1) u(1) by simp
qed

lemma first_Some:
  assumes "first b = Some (sz, lo, hi)"
  shows "(b < 0x80 \<and> sz = 1)
    \<or> (0xC2 \<le> b \<and> b < 0xE0 \<and> sz = 2 \<and> lo = 0x80 \<and> hi = 0xBF)
    \<or> (0xE0 \<le> b \<and> b \<le> 0xEF \<and> sz = 3 \<and> 0x80 \<le> lo \<and> hi \<le> 0xBF
        \<and> (b = 0xE0 \<longrightarrow> 0xA0 \<le> lo) \<and> (b = 0xED \<longrightarrow> hi \<le> 0x9F))
    \<or> (0xF0 \<le> b \<and> b \<le> 0xF4 \<and> sz = 4 \<and> 0x80 \<le> lo \<and> hi \<le> 0xBF
        \<and> (b = 0xF0 \<longrightarrow> 0x90 \<le> lo) \<and> (b = 0xF4 \<longrightarrow> hi \<le> 0x8F))"
  using assms by (simp add: first_def split: if_splits)

lemma take2: "2 \<le> length s \<Longrightarrow> take 2 s = [s ! 0, s ! 1]"
  by (cases s; cases "tl s") auto

lemma take3: "3 \<le> length s \<Longrightarrow> take 3 s = [s ! 0, s ! 1, s ! 2]"
  by (cases s; cases "tl s"; cases "tl (tl s)") auto

lemma take4: "4 \<le> length s \<Longrightarrow> take 4 s = [s ! 0, s ! 1, s ! 2, s ! 3]"
  by (cases s; cases "tl s"; cases "tl (tl s)"; cases "tl (tl (tl s))") auto

lemma DecodeRuneInString_first:
  assumes "first (of_char (s ! 0)) = Some (sz, lo, hi)" and "s \<noteq> []"
  shows "DecodeRuneInString s =
     (if sz = 1 then (of_char (s ! 0), 1)
      else if length s < sz then (RuneError, 1)
      else if (of_char (s ! 1) :: nat) < lo \<or> hi < (of_char (s ! 1) :: nat) then (RuneError, 1)
      else if sz \<le> 2 then (of_char (s ! 0) mod 32 * 64 + of_char (s ! 1) mod 64, 2)
      else if (of_char (s ! 2) :: nat) < 0x80 \<or> 0xBF < (of_char (s ! 2) :: nat) then (RuneError, 1)
      else if sz \<le> 3 then
        (of_char (s ! 0) mod 16 * 4096 + of_char (s ! 1) mod 64 * 64 + of_char (s ! 2) mod 64, 3)
      else if (of_char (s ! 3) :: nat) < 0x80 \<or> 0xBF < (of_char (s ! 3) :: nat) then (RuneError, 1)
      else (of_char (s ! 0) mod 8 * 262144 + of_char (s ! 1) mod 64 * 4096
              + of_char (s ! 2) mod 64 * 64 + of_char (s ! 3) mod 64, 4))"
  using assms by (simp add: DecodeRuneInString_def Let_def)

lemma decode2:
  assumes f: "first (of_char (s ! 0)) = Some (2, lo, hi)" and s: "s \<noteq> []"
    and b0: "0xC2 \<le> (of_char (s ! 0) :: nat)" "(of_char (s ! 0) :: nat) < 0xE0"
    and lh: "lo = 0x80" "hi = 0xBF"
    and d: "DecodeRuneInString s = (r, w)"
  shows "(w = 1 \<and> r = RuneError) \<or> multibyte s r w"
proof (cases "length s < 2 \<or> (of_char (s ! 1) :: nat) < lo \<or> hi < (of_char (s ! 1) :: nat)")
  case True
  then show ?thesis using d unfolding DecodeRuneInString_first [OF f s]
    by (auto split: if_splits)
next
  case False
  then have n: "2 \<le> length s" and b1: "0x80 \<le> (of_char (s ! 1) :: nat)"
    "(of_char (s ! 1) :: nat) \<le> 0xBF"
    using lh by simp_all
  have r: "r = of_char (s ! 0) mod 32 * 64 + of_char (s ! 1) mod 64" and w: "w = 2"
    using d False unfolding DecodeRuneInString_first [OF f s] by simp_all
  note e = enc2 [OF b0 b1 r]
  have "AppendRune [] r = [char_of (0xC0 + r div 64), char_of (0x80 + r mod 64)]"
    using e by (simp add: AppendRune_def)
  also have "\<dots> = take 2 s" using e n by (simp add: take2)
  finally have a: "AppendRune [] r = take 2 s" .
  have v: "ValidRune r" "r \<le> MaxRune" using e by (simp_all add: ValidRune_def MaxRune_def)
  have "list_all (\<lambda>c. 0x80 \<le> (of_char c :: nat)) (take 2 s)"
    using n b0 b1 by (simp add: take2)
  then have "multibyte s r w"
    unfolding multibyte_def using w n f e a v by auto
  then show ?thesis ..
qed

lemma decode3:
  assumes f: "first (of_char (s ! 0)) = Some (3, lo, hi)" and s: "s \<noteq> []"
    and b0: "0xE0 \<le> (of_char (s ! 0) :: nat)" "(of_char (s ! 0) :: nat) \<le> 0xEF"
    and lh: "0x80 \<le> lo" "hi \<le> 0xBF"
    and e0: "(of_char (s ! 0) :: nat) = 0xE0 \<Longrightarrow> 0xA0 \<le> lo"
    and ed: "(of_char (s ! 0) :: nat) = 0xED \<Longrightarrow> hi \<le> 0x9F"
    and d: "DecodeRuneInString s = (r, w)"
  shows "(w = 1 \<and> r = RuneError) \<or> multibyte s r w"
proof (cases "length s < 3 \<or> (of_char (s ! 1) :: nat) < lo \<or> hi < (of_char (s ! 1) :: nat)
    \<or> (of_char (s ! 2) :: nat) < 0x80 \<or> 0xBF < (of_char (s ! 2) :: nat)")
  case True
  then show ?thesis using d unfolding DecodeRuneInString_first [OF f s]
    by (auto split: if_splits)
next
  case False
  then have n: "3 \<le> length s" and b1: "lo \<le> (of_char (s ! 1) :: nat)"
    "(of_char (s ! 1) :: nat) \<le> hi"
    and b2: "0x80 \<le> (of_char (s ! 2) :: nat)" "(of_char (s ! 2) :: nat) \<le> 0xBF"
    by simp_all
  have r: "r = of_char (s ! 0) mod 16 * 4096 + of_char (s ! 1) mod 64 * 64
      + of_char (s ! 2) mod 64" and w: "w = 3"
    using d False unfolding DecodeRuneInString_first [OF f s] by simp_all
  note e = enc3 [OF b0 b1 lh b2 e0 ed r]
  have "AppendRune [] r =
      [char_of (0xE0 + r div 4096), char_of (0x80 + r div 64 mod 64), char_of (0x80 + r mod 64)]"
    using e by (auto simp: AppendRune_def MaxRune_def)
  also have "\<dots> = take 3 s" using e n by (simp add: take3)
  finally have a: "AppendRune [] r = take 3 s" .
  have v: "ValidRune r" "r \<le> MaxRune" using e by (auto simp: ValidRune_def MaxRune_def)
  have "list_all (\<lambda>c. 0x80 \<le> (of_char c :: nat)) (take 3 s)"
    using n b0 b1 b2 lh by (simp add: take3)
  then have "multibyte s r w"
    unfolding multibyte_def using w n f e a v by auto
  then show ?thesis ..
qed

lemma decode4:
  assumes f: "first (of_char (s ! 0)) = Some (4, lo, hi)" and s: "s \<noteq> []"
    and b0: "0xF0 \<le> (of_char (s ! 0) :: nat)" "(of_char (s ! 0) :: nat) \<le> 0xF4"
    and lh: "0x80 \<le> lo" "hi \<le> 0xBF"
    and f0: "(of_char (s ! 0) :: nat) = 0xF0 \<Longrightarrow> 0x90 \<le> lo"
    and f4: "(of_char (s ! 0) :: nat) = 0xF4 \<Longrightarrow> hi \<le> 0x8F"
    and d: "DecodeRuneInString s = (r, w)"
  shows "(w = 1 \<and> r = RuneError) \<or> multibyte s r w"
proof (cases "length s < 4 \<or> (of_char (s ! 1) :: nat) < lo \<or> hi < (of_char (s ! 1) :: nat)
    \<or> (of_char (s ! 2) :: nat) < 0x80 \<or> 0xBF < (of_char (s ! 2) :: nat)
    \<or> (of_char (s ! 3) :: nat) < 0x80 \<or> 0xBF < (of_char (s ! 3) :: nat)")
  case True
  then show ?thesis using d unfolding DecodeRuneInString_first [OF f s]
    by (auto split: if_splits)
next
  case False
  then have n: "4 \<le> length s" and b1: "lo \<le> (of_char (s ! 1) :: nat)"
    "(of_char (s ! 1) :: nat) \<le> hi"
    and b2: "0x80 \<le> (of_char (s ! 2) :: nat)" "(of_char (s ! 2) :: nat) \<le> 0xBF"
    and b3: "0x80 \<le> (of_char (s ! 3) :: nat)" "(of_char (s ! 3) :: nat) \<le> 0xBF"
    by simp_all
  have r: "r = of_char (s ! 0) mod 8 * 262144 + of_char (s ! 1) mod 64 * 4096
      + of_char (s ! 2) mod 64 * 64 + of_char (s ! 3) mod 64" and w: "w = 4"
    using d False unfolding DecodeRuneInString_first [OF f s] by simp_all
  note e = enc4 [OF b0 b1 lh b2 b3 f0 f4 r]
  have "AppendRune [] r =
      [char_of (0xF0 + r div 262144), char_of (0x80 + r div 4096 mod 64),
       char_of (0x80 + r div 64 mod 64), char_of (0x80 + r mod 64)]"
    using e by (auto simp: AppendRune_def MaxRune_def)
  also have "\<dots> = take 4 s" using e n by (simp add: take4)
  finally have a: "AppendRune [] r = take 4 s" .
  have v: "ValidRune r" "r \<le> MaxRune" using e by (auto simp: ValidRune_def MaxRune_def)
  have "list_all (\<lambda>c. 0x80 \<le> (of_char c :: nat)) (take 4 s)"
    using n b0 b1 b2 b3 lh by (simp add: take4)
  then have "multibyte s r w"
    unfolding multibyte_def using w n f e a v by auto
  then show ?thesis ..
qed

lemma DecodeRuneInString_cases:
  assumes s: "s \<noteq> []" and b0: "0x80 \<le> (of_char (s ! 0) :: nat)"
    and d: "DecodeRuneInString s = (r, w)"
  shows "(w = 1 \<and> r = RuneError) \<or> multibyte s r w"
proof (cases "first (of_char (s ! 0))")
  case None
  then show ?thesis using d s by (simp add: DecodeRuneInString_def Let_def)
next
  case (Some a)
  obtain sz lo hi where a: "a = (sz, lo, hi)" by (cases a)
  note f = Some [unfolded a]
  from first_Some [OF f] b0 consider
      (two) "0xC2 \<le> (of_char (s ! 0) :: nat)" "(of_char (s ! 0) :: nat) < 0xE0" "sz = 2"
        "lo = 0x80" "hi = 0xBF"
    | (three) "0xE0 \<le> (of_char (s ! 0) :: nat)" "(of_char (s ! 0) :: nat) \<le> 0xEF" "sz = 3"
        "0x80 \<le> lo" "hi \<le> 0xBF" "(of_char (s ! 0) :: nat) = 0xE0 \<longrightarrow> 0xA0 \<le> lo"
        "(of_char (s ! 0) :: nat) = 0xED \<longrightarrow> hi \<le> 0x9F"
    | (four) "0xF0 \<le> (of_char (s ! 0) :: nat)" "(of_char (s ! 0) :: nat) \<le> 0xF4" "sz = 4"
        "0x80 \<le> lo" "hi \<le> 0xBF" "(of_char (s ! 0) :: nat) = 0xF0 \<longrightarrow> 0x90 \<le> lo"
        "(of_char (s ! 0) :: nat) = 0xF4 \<longrightarrow> hi \<le> 0x8F"
    by fastforce
  then show ?thesis
  proof cases
    case two
    show ?thesis
      using decode2 [OF f [unfolded two(3)] s two(1,2,4,5) d] .
  next
    case three
    show ?thesis
      using decode3 [OF f [unfolded three(3)] s three(1,2,4,5) _ _ d] three(6,7) by blast
  next
    case four
    show ?thesis
      using decode4 [OF f [unfolded four(3)] s four(1,2,4,5) _ _ d] four(6,7) by blast
  qed
qed

section \<open>The quoted form\<close>

lemma AppendRune_buf: "AppendRune buf r = buf @ AppendRune [] r"
  by (simp add: AppendRune_def)

lemma appendEscapedRune_buf:
  "appendEscapedRune tables buf r = buf @ appendEscapedRune tables [] r"
  by (simp add: appendEscapedRune_def AppendRune_buf [of buf])

lemma appendQuoted_loop_Nil: "appendQuoted_loop tables buf [] = buf"
  by (simp add: appendQuoted_loop.simps)

lemma appendQuoted_loop_step:
  "s \<noteq> [] \<Longrightarrow>
   appendQuoted_loop tables buf s =
     appendQuoted_loop tables (buf @ escape_first tables s) (drop (snd (nextRune s)) s)"
  by (subst appendQuoted_loop.simps)
    (simp add: escape_first_def appendEscapedRune_buf [of tables buf] split: prod.split)

lemma appendQuoted_loop_buf:
  "appendQuoted_loop tables buf s = buf @ appendQuoted_loop tables [] s"
proof (induction s arbitrary: buf rule: length_induct)
  case (1 s)
  show ?case
  proof (cases "s = []")
    case True
    then show ?thesis by (simp add: appendQuoted_loop_Nil)
  next
    case False
    let ?t = "drop (snd (nextRune s)) s"
    have "length ?t < length s"
      using nextRune_width_pos [OF False] False by simp
    then have IH: "appendQuoted_loop tables b ?t = b @ appendQuoted_loop tables [] ?t" for b
      using 1 by blast
    show ?thesis
      using IH [of "buf @ escape_first tables s"] IH [of "escape_first tables s"]
      by (simp add: appendQuoted_loop_step [OF False, of tables buf]
          appendQuoted_loop_step [OF False, of tables "[]"])
  qed
qed

lemma Quote_body_Nil: "Quote_body tables [] = []"
  by (simp add: Quote_body_def appendQuoted_loop_Nil)

lemma Quote_body_step:
  "s \<noteq> [] \<Longrightarrow>
   Quote_body tables s
     = escape_first tables s @ Quote_body tables (drop (snd (nextRune s)) s)"
  unfolding Quote_body_def
  by (subst appendQuoted_loop_step, assumption, subst appendQuoted_loop_buf, simp)

lemma Quote_eq: "Quote tables s = [CHR 0x22] @ Quote_body tables s @ [CHR 0x22]"
  by (simp add: Quote_def Quote_body_def appendQuoted_loop_buf [of tables "[CHR 0x22]"])

lemma Quote_body_induct [case_names Nil step]:
  assumes "P []" and "\<And>s. s \<noteq> [] \<Longrightarrow> P (drop (snd (nextRune s)) s) \<Longrightarrow> P s"
  shows "P s"
proof (induction s rule: length_induct)
  case (1 s)
  show ?case
  proof (cases "s = []")
    case True
    then show ?thesis using assms(1) by simp
  next
    case False
    have "length (drop (snd (nextRune s)) s) < length s"
      using nextRune_width_pos [OF False] False by simp
    then show ?thesis using 1 assms(2) [OF False] by blast
  qed
qed

lemma hd_nth0: "s \<noteq> [] \<Longrightarrow> s ! 0 = hd s"
  by (cases s) simp_all

lemma escape_first_cases [consumes 1, case_names backslashed plain named hex raw u4 u8]:
  assumes s: "s \<noteq> []"
  obtains
    "snd (nextRune s) = 1" "hd s = CHR 0x22 \<or> hd s = CHR 0x5C"
      "escape_first tables s = [CHR 0x5C, hd s]"
  | "snd (nextRune s) = 1" "0x20 \<le> (of_char (hd s) :: nat)" "(of_char (hd s) :: nat) \<le> 0x7E"
      "hd s \<noteq> CHR 0x22" "hd s \<noteq> CHR 0x5C" "escape_first tables s = [hd s]"
  | l where "snd (nextRune s) = 1" "(hd s, l) \<in> set named_escapes"
      "escape_first tables s = [CHR 0x5C, l]"
  | "snd (nextRune s) = 1"
      "escape_first tables s = [CHR 0x5C, CHR ''x''] @ hexdigits 2 (of_char (hd s))"
  | r w where "nextRune s = (r, w)" "multibyte s r w" "escape_first tables s = take w s"
  | r w where "nextRune s = (r, w)" "multibyte s r w" "r < 0x10000"
      "escape_first tables s = [CHR 0x5C, CHR ''u''] @ hexdigits 4 r"
  | r w where "nextRune s = (r, w)" "multibyte s r w"
      "escape_first tables s = [CHR 0x5C, CHR ''U''] @ hexdigits 8 r"
proof (cases "(of_char (hd s) :: nat) < 0x80")
  case True
  define b where "b = (of_char (hd s) :: nat)"
  have c: "hd s = char_of b" by (simp add: b_def)
  have n: "nextRune s = (b, 1)"
    using True s by (simp add: nextRune_def Let_def RuneSelf_def hd_nth0 b_def)
  have e: "escape_first tables s = appendEscapedRune tables [] b"
    using True by (simp add: escape_first_def n RuneError_def b_def)
  have b: "b < 0x80" using True by (simp add: b_def)
  consider "b = 0x22 \<or> b = 0x5C" | "0x20 \<le> b" "b \<le> 0x7E" "b \<noteq> 0x22" "b \<noteq> 0x5C"
    | "b \<in> {0x07, 0x08, 0x0C, 0x0A, 0x0D, 0x09, 0x0B}"
    | "b < 0x20 \<or> b = 0x7F" "b \<notin> {0x07, 0x08, 0x0C, 0x0A, 0x0D, 0x09, 0x0B}"
    using b by fastforce
  then show ?thesis
  proof cases
    case 1
    have "hd s = CHR 0x22 \<or> hd s = CHR 0x5C"
      using 1 by (auto simp: c char_of_eq_iff)
    moreover have "escape_first tables s = [CHR 0x5C, hd s]"
      using 1 by (auto simp: c e appendEscapedRune_def)
    ultimately show ?thesis using that(1) n by simp
  next
    case 2
    have "hd s \<noteq> CHR 0x22" "hd s \<noteq> CHR 0x5C"
      using 2 by (auto simp: b_def)
    moreover have "escape_first tables s = [hd s]"
      using 2 by (simp add: c e appendEscapedRune_def IsPrint_def AppendRune_def)
    ultimately show ?thesis using that(2) n 2 by (simp add: b_def)
  next
    case 3
    then have "\<exists>l. (hd s, l) \<in> set named_escapes
        \<and> appendEscapedRune tables [] b = [CHR 0x5C, l]"
      by (auto simp: c char_of_eq_iff named_escapes_def appendEscapedRune_def IsPrint_def)
    then show ?thesis using that(3) n e by auto
  next
    case 4
    then have "escape_first tables s = [CHR 0x5C, CHR ''x''] @ hexdigits 2 (of_char (hd s))"
      by (auto simp: e appendEscapedRune_def IsPrint_def b_def)
    then show ?thesis using that(4) n by simp
  qed
next
  case False
  obtain r w where d: "DecodeRuneInString s = (r, w)" by (cases "DecodeRuneInString s")
  have n: "nextRune s = (r, w)"
    using False s d by (simp add: nextRune_def Let_def RuneSelf_def hd_nth0)
  have b0: "0x80 \<le> (of_char (s ! 0) :: nat)" using False s by (simp add: hd_nth0)
  from DecodeRuneInString_cases [OF s b0 d] show ?thesis
  proof
    assume "w = 1 \<and> r = RuneError"
    then have "escape_first tables s = [CHR 0x5C, CHR ''x''] @ hexdigits 2 (of_char (hd s))"
      using s by (simp add: escape_first_def n hd_nth0)
    then show ?thesis using that(4) n \<open>w = 1 \<and> r = RuneError\<close> by simp
  next
    assume m: "multibyte s r w"
    then have r: "0x80 \<le> r" "r \<le> MaxRune" "ValidRune r" "2 \<le> w"
      and a: "AppendRune [] r = take w s"
      by (simp_all add: multibyte_def)
    have e: "escape_first tables s = appendEscapedRune tables [] r"
      using r(4) by (simp add: escape_first_def n)
    show ?thesis
    proof (cases "IsPrint tables r")
      case True
      then have "escape_first tables s = take w s"
        using r a by (simp add: e appendEscapedRune_def)
      then show ?thesis using that(5) n m by blast
    next
      case np: False
      show ?thesis
      proof (cases "r < 0x10000")
        case True
        then have "escape_first tables s = [CHR 0x5C, CHR ''u''] @ hexdigits 4 r"
          using r np by (simp add: e appendEscapedRune_def)
        then show ?thesis using that(6) n m True by blast
      next
        case False
        then have "escape_first tables s = [CHR 0x5C, CHR ''U''] @ hexdigits 8 r"
          using r np by (simp add: e appendEscapedRune_def)
        then show ?thesis using that(7) n m by blast
      qed
    qed
  qed
qed

subsection \<open>No control character, every quote mark escaped\<close>

lemma length_hexdigits [simp]: "length (hexdigits k r) = k"
  by (simp add: hexdigits_def)

lemma length_lowerhex: "length lowerhex = 16"
  by (simp add: lowerhex_def)

lemma hexdigits_in_lowerhex:
  assumes "c \<in> set (hexdigits k r)"
  shows "c \<in> set lowerhex"
proof -
  obtain i where "c = lowerhex ! (r div 16 ^ i mod 16)"
    using assms by (auto simp: hexdigits_def)
  moreover have "r div 16 ^ i mod 16 < length lowerhex"
    by (simp add: length_lowerhex)
  ultimately show ?thesis using nth_mem by blast
qed

lemma lowerhex_plain:
  "c \<in> set lowerhex \<Longrightarrow> no_control c \<and> c \<noteq> CHR 0x5C \<and> c \<noteq> CHR 0x22"
  by (auto simp: lowerhex_def no_control_def)

lemma hexdigits_plain:
  "c \<in> set (hexdigits k r) \<Longrightarrow> no_control c \<and> c \<noteq> CHR 0x5C \<and> c \<noteq> CHR 0x22"
  using hexdigits_in_lowerhex lowerhex_plain by blast

lemma quotes_escaped_plain:
  "\<forall>c \<in> set xs. c \<noteq> CHR 0x5C \<and> c \<noteq> CHR 0x22 \<Longrightarrow>
   quotes_escaped False (xs @ rest) = quotes_escaped False rest"
  by (induction xs) simp_all

lemma quotes_escaped_backslash:
  "\<forall>c \<in> set xs. c \<noteq> CHR 0x5C \<and> c \<noteq> CHR 0x22 \<Longrightarrow>
   quotes_escaped False (CHR 0x5C # d # xs @ rest) = quotes_escaped False rest"
  by (simp add: quotes_escaped_plain)

lemma multibyte_bytes:
  "multibyte s r w \<Longrightarrow> c \<in> set (take w s) \<Longrightarrow> 0x80 \<le> (of_char c :: nat)"
  by (auto simp: multibyte_def list_all_iff)

lemma escape_first_no_control:
  assumes "s \<noteq> []" and "c \<in> set (escape_first tables s)"
  shows "no_control c"
  using assms(1)
proof (cases rule: escape_first_cases [where tables = tables])
  case backslashed
  then show ?thesis using assms(2) by (auto simp: no_control_def)
next
  case plain
  then show ?thesis using assms(2) by (auto simp: no_control_def)
next
  case (named l)
  then show ?thesis using assms(2) by (auto simp: no_control_def named_escapes_def)
next
  case hex
  then show ?thesis using assms(2) hexdigits_plain [of c] by (auto simp: no_control_def)
next
  case (raw r w)
  then show ?thesis using assms(2) multibyte_bytes [of s r w c] by (auto simp: no_control_def)
next
  case (u4 r w)
  then show ?thesis using assms(2) hexdigits_plain [of c] by (auto simp: no_control_def)
next
  case (u8 r w)
  then show ?thesis using assms(2) hexdigits_plain [of c] by (auto simp: no_control_def)
qed

lemma escape_first_quotes_escaped:
  assumes "s \<noteq> []"
  shows "quotes_escaped False (escape_first tables s @ rest) = quotes_escaped False rest"
  using assms
proof (cases rule: escape_first_cases [where tables = tables])
  case backslashed
  then show ?thesis by simp
next
  case plain
  then show ?thesis by simp
next
  case (named l)
  then show ?thesis by simp
next
  case hex
  then show ?thesis using hexdigits_plain by (simp add: quotes_escaped_plain)
next
  case (raw r w)
  have "\<forall>c \<in> set (take w s). c \<noteq> CHR 0x5C \<and> c \<noteq> CHR 0x22"
    using multibyte_bytes [OF raw(2)] by fastforce
  then show ?thesis using raw(3) by (simp add: quotes_escaped_plain)
next
  case (u4 r w)
  then show ?thesis using hexdigits_plain by (simp add: quotes_escaped_plain)
next
  case (u8 r w)
  then show ?thesis using hexdigits_plain by (simp add: quotes_escaped_plain)
qed

lemma Quote_body_no_control: "list_all no_control (Quote_body tables s)"
proof (induction s rule: Quote_body_induct)
  case Nil
  then show ?case by (simp add: Quote_body_Nil)
next
  case (step s)
  then show ?case
    using escape_first_no_control [OF step(1), of _ tables]
    by (auto simp: Quote_body_step list_all_iff)
qed

lemma Quote_body_quotes_escaped: "quotes_escaped False (Quote_body tables s)"
proof (induction s rule: Quote_body_induct)
  case Nil
  then show ?case by (simp add: Quote_body_Nil)
next
  case (step s)
  then show ?case
    by (simp add: Quote_body_step escape_first_quotes_escaped)
qed

subsection \<open>Quoting is injective\<close>

lemma distinct_lowerhex: "distinct lowerhex"
  by (simp add: lowerhex_def)

lemma lowerhex_index:
  assumes "d < 16"
  shows "length (takeWhile (\<lambda>x. x \<noteq> lowerhex ! d) lowerhex) = d"
proof -
  have "takeWhile (\<lambda>x. x \<noteq> lowerhex ! d) lowerhex = take d lowerhex"
  proof (rule takeWhile_eq_take_P_nth)
    fix i assume "i < d" "i < length lowerhex"
    then show "lowerhex ! i \<noteq> lowerhex ! d"
      using assms distinct_lowerhex by (simp add: nth_eq_iff_index_eq length_lowerhex)
  qed simp
  then show ?thesis using assms by (simp add: length_lowerhex)
qed

lemma hexdigits_Suc:
  "hexdigits (Suc k) r = hexdigits k (r div 16) @ [lowerhex ! (r mod 16)]"
proof -
  have "[0 ..< Suc k] = 0 # [Suc 0 ..< Suc k]"
    by (rule upt_conv_Cons) simp
  also have "[Suc 0 ..< Suc k] = map Suc [0 ..< k]"
    by (rule map_Suc_upt [symmetric])
  finally have "rev [0 ..< Suc k] = map Suc (rev [0 ..< k]) @ [0]"
    by (simp add: rev_map)
  then show ?thesis
    by (simp add: hexdigits_def div_mult2_eq)
qed

lemma hexval_snoc:
  "hexval (ds @ [c]) = 16 * hexval ds + length (takeWhile (\<lambda>d. d \<noteq> c) lowerhex)"
  by (simp add: hexval_def)

lemma hexval_hexdigits: "r < 16 ^ k \<Longrightarrow> hexval (hexdigits k r) = r"
proof (induction k arbitrary: r)
  case 0
  then show ?case by (simp add: hexdigits_def hexval_def)
next
  case (Suc k)
  have "r div 16 < 16 ^ k"
    using Suc.prems by (simp add: less_mult_imp_div_less mult.commute)
  then have "hexval (hexdigits k (r div 16)) = r div 16" by (rule Suc.IH)
  then show ?case
    by (simp add: hexdigits_Suc hexval_snoc lowerhex_index)
qed

lemma take_hexdigits: "take k (hexdigits k r @ x) = hexdigits k r"
  by simp

lemma take1_hd: "s \<noteq> [] \<Longrightarrow> take (Suc 0) s = [hd s]"
  by (cases s) simp_all

lemma named_escapes_lookup:
  assumes "(c, l) \<in> set named_escapes"
  shows "map_of (map (\<lambda>(c, l). (l, c)) named_escapes) l = Some c
    \<and> l \<noteq> CHR ''x'' \<and> l \<noteq> CHR ''u'' \<and> l \<noteq> CHR ''U''"
proof -
  have "(c, l) \<in> {(CHR 0x07, CHR ''a''), (CHR 0x08, CHR ''b''), (CHR 0x0C, CHR ''f''),
      (CHR 0x0A, CHR ''n''), (CHR 0x0D, CHR ''r''), (CHR 0x09, CHR ''t''),
      (CHR 0x0B, CHR ''v'')}"
    using assms by (simp add: named_escapes_def)
  then show ?thesis
    by (elim insertE emptyE) (simp_all add: named_escapes_def)
qed

lemma escape_first_read:
  assumes s: "s \<noteq> []"
  shows "tok_len (escape_first tables s @ x) = length (escape_first tables s)
    \<and> tok_src (escape_first tables s @ x) = take (snd (nextRune s)) s
    \<and> snd (nextRune s) \<le> length s"
  using s
proof (cases rule: escape_first_cases [where tables = tables])
  case backslashed
  then show ?thesis
    using s by (auto simp: tok_len_def tok_src_def named_escapes_def take1_hd Suc_le_eq)
next
  case plain
  then show ?thesis
    using s by (auto simp: tok_len_def tok_src_def take1_hd Suc_le_eq)
next
  case (named l)
  then show ?thesis
    using s named_escapes_lookup [OF named(2)]
    by (simp add: tok_len_def tok_src_def take1_hd Suc_le_eq)
next
  case hex
  have "hexval (hexdigits 2 (of_char (hd s))) = (of_char (hd s) :: nat)"
    by (rule hexval_hexdigits) simp
  then show ?thesis
    using s hex by (simp add: tok_len_def tok_src_def take1_hd Suc_le_eq)
next
  case (raw r w)
  have w: "2 \<le> w" "w \<le> length s" and f: "\<exists>lo hi. first (of_char (s ! 0)) = Some (w, lo, hi)"
    using raw(2) by (auto simp: multibyte_def)
  obtain c cs where cs: "take w s = c # cs" "c = hd s"
    using w s by (cases s) (auto simp: take_Cons')
  have c: "0x80 \<le> (of_char c :: nat)"
    using multibyte_bytes [OF raw(2), of c] cs by simp
  then have "c \<noteq> CHR 0x5C" by auto
  moreover have "first (of_char c) = Some (w, lo, hi)" if "first (of_char (s ! 0)) = Some (w, lo, hi)"
    for lo hi using that s cs(2) by (simp add: hd_nth0)
  ultimately have l: "tok_len (take w s @ x) = w"
    using f c by (auto simp: tok_len_def cs(1))
  have "tok_src (take w s @ x) = take (tok_len (take w s @ x)) (take w s @ x)"
    using \<open>c \<noteq> CHR 0x5C\<close> by (simp add: tok_src_def cs(1))
  also have "\<dots> = take w s"
    unfolding l using w by simp
  finally show ?thesis using raw w l by simp
next
  case (u4 r w)
  have "r < 16 ^ 4" using u4(3) by simp
  then have "hexval (hexdigits 4 r) = r" by (rule hexval_hexdigits)
  moreover have "AppendRune [] r = take w s" "w \<le> length s"
    using u4(2) by (simp_all add: multibyte_def)
  ultimately show ?thesis
    using u4 by (simp add: tok_len_def tok_src_def)
next
  case (u8 r w)
  have "r \<le> MaxRune" using u8(2) by (simp add: multibyte_def)
  then have "r < 16 ^ 8" by (simp add: MaxRune_def)
  then have "hexval (hexdigits 8 r) = r" by (rule hexval_hexdigits)
  moreover have "AppendRune [] r = take w s" "w \<le> length s"
    using u8(2) by (simp_all add: multibyte_def)
  ultimately show ?thesis
    using u8 by (simp add: tok_len_def tok_src_def)
qed

lemma escape_first_nonempty: "s \<noteq> [] \<Longrightarrow> escape_first tables s \<noteq> []"
  using escape_first_read [of s tables "[]"] nextRune_width_pos [of s]
  by (auto simp: tok_src_def)

lemma Quote_body_inj: "Quote_body tables s = Quote_body tables t \<Longrightarrow> s = t"
proof (induction s arbitrary: t rule: Quote_body_induct)
  case Nil
  show ?case
  proof (rule ccontr)
    assume "[] \<noteq> t"
    then have "t \<noteq> []" by simp
    then show False
      using Nil escape_first_nonempty [of t tables]
      by (simp add: Quote_body_Nil Quote_body_step)
  qed
next
  case (step s)
  have t: "t \<noteq> []"
  proof
    assume "t = []"
    then show False
      using step(3) escape_first_nonempty [OF step(1), of tables]
      by (simp add: Quote_body_Nil Quote_body_step [OF step(1)])
  qed
  let ?s' = "drop (snd (nextRune s)) s" and ?t' = "drop (snd (nextRune t)) t"
  have eq: "escape_first tables s @ Quote_body tables ?s'
      = escape_first tables t @ Quote_body tables ?t'"
    using step(3) by (simp add: Quote_body_step [OF step(1)] Quote_body_step [OF t])
  note rs = escape_first_read [OF step(1), of tables "Quote_body tables ?s'"]
  note rt = escape_first_read [OF t, of tables "Quote_body tables ?t'"]
  have len: "length (escape_first tables s) = length (escape_first tables t)"
    using rs rt eq by simp
  then have tok: "escape_first tables s = escape_first tables t"
    and rest: "Quote_body tables ?s' = Quote_body tables ?t'"
    using eq by simp_all
  have src: "take (snd (nextRune s)) s = take (snd (nextRune t)) t"
    using rs rt eq by simp
  have "?s' = ?t'" using step(2) rest by blast
  then have "take (snd (nextRune s)) s @ ?s' = take (snd (nextRune t)) t @ ?t'"
    using src by simp
  then show ?case by simp
qed

lemma Quote_inj: "Quote tables s = Quote tables t \<Longrightarrow> s = t"
  using Quote_body_inj by (simp add: Quote_eq)

lemma Quote_shape:
  "\<exists>body. Quote tables s = [CHR 0x22] @ body @ [CHR 0x22]
     \<and> list_all (\<lambda>c. 0x20 \<le> (of_char c :: nat) \<and> (of_char c :: nat) \<noteq> 0x7F) body
     \<and> quotes_escaped False body"
  using Quote_body_no_control [of tables s] Quote_body_quotes_escaped [of tables s]
  by (auto simp: Quote_eq no_control_def [abs_def])

section \<open>The token, hint and message clauses\<close>

text \<open>
  Claim C7. After the clauses of the ABI fields, the rendering appends
  \<^verbatim>\<open>, token <quoted Token>\<close> exactly when Token is non-empty, then
  \<^verbatim>\<open>, hint <quoted Prefix>\<close> exactly when Prefix is non-empty, then
  \<^verbatim>\<open>, message: <Message>\<close>, unquoted, exactly when Message is non-empty. A quoted
  string stands between two quote marks; its body holds no control character, every
  quote mark in it is escaped by a backslash, and different strings have different
  quoted forms.
\<close>

theorem debug_clauses_appended_and_quoted:
  "(\<exists>abi. Error_Error tables (e\<lparr>Token := [], Prefix := [], Message := []\<rparr>) = Inr abi
      \<and> Error_Error tables e =
          Inr (abi
            @ (if Token e \<noteq> [] then '', token '' @ Quote tables (Token e) else [])
            @ (if Prefix e \<noteq> [] then '', hint '' @ Quote tables (Prefix e) else [])
            @ (if Message e \<noteq> [] then '', message: '' @ Message e else [])))
   \<and> (\<exists>body. Quote tables s = [CHR 0x22] @ body @ [CHR 0x22]
        \<and> list_all (\<lambda>c. 0x20 \<le> (of_char c :: nat) \<and> (of_char c :: nat) \<noteq> 0x7F) body
        \<and> quotes_escaped False body)
   \<and> (Quote tables s = Quote tables t \<longrightarrow> s = t)"
proof (intro conjI)
  obtain cc where cc: "Sprintf_category_code (Category e) (Code e) = Inr cc"
    using Sprintf_category_code_returns by blast
  have "Error_Error tables (e\<lparr>Token := [], Prefix := [], Message := []\<rparr>)
      = Inr (location_clause e @ cc)"
    using Error_Error_closed_form [of "e\<lparr>Token := [], Prefix := [], Message := []\<rparr>" cc tables] cc
    by (simp add: location_clause_def debug_clauses_def)
  moreover have "Error_Error tables e = Inr ((location_clause e @ cc) @ debug_clauses tables e)"
    using Error_Error_closed_form [OF cc, of tables] by simp
  ultimately show "\<exists>abi. Error_Error tables (e\<lparr>Token := [], Prefix := [], Message := []\<rparr>) = Inr abi
      \<and> Error_Error tables e =
          Inr (abi
            @ (if Token e \<noteq> [] then '', token '' @ Quote tables (Token e) else [])
            @ (if Prefix e \<noteq> [] then '', hint '' @ Quote tables (Prefix e) else [])
            @ (if Message e \<noteq> [] then '', message: '' @ Message e else []))"
    unfolding debug_clauses_def by blast
  show "\<exists>body. Quote tables s = [CHR 0x22] @ body @ [CHR 0x22]
        \<and> list_all (\<lambda>c. 0x20 \<le> (of_char c :: nat) \<and> (of_char c :: nat) \<noteq> 0x7F) body
        \<and> quotes_escaped False body"
    by (rule Quote_shape)
  show "Quote tables s = Quote tables t \<longrightarrow> s = t"
    using Quote_inj by blast
qed

lemmas Quote_eval = Quote_def appendQuoted_loop.simps nextRune_def DecodeRuneInString_def
  first_def appendEscapedRune_def IsPrint_def AppendRune_def hexdigits_def lowerhex_def
  RuneError_def RuneSelf_def MaxRune_def ValidRune_def upt_rec char_of_eq_iff

theorem debug_clauses_appended_and_quoted_witness:
  "Error_Error (\<lambda>r. False)
     \<lparr>Position = 3, Length = 5, Category = 2, Code = 2,
      Token = [CHR ''a'', CHR 0x22, CHR 0x0A], Prefix = ''p'', Message = ''m''\<rparr>
   = Inr (''offset 3, length 5, category 2 (grammar), code 2 (parser error), token ''
          @ [CHR 0x22, CHR ''a'', CHR 0x5C, CHR 0x22, CHR 0x5C, CHR ''n'', CHR 0x22]
          @ '', hint '' @ [CHR 0x22, CHR ''p'', CHR 0x22] @ '', message: m'')
   \<and> Quote (\<lambda>r. False) [CHR ''a'', CHR 0x22, CHR 0x0A]
     = [CHR 0x22, CHR ''a'', CHR 0x5C, CHR 0x22, CHR 0x5C, CHR ''n'', CHR 0x22]"
  using debug_clauses_appended_and_quoted
    [of "\<lambda>r. False"
        "\<lparr>Position = 3, Length = 5, Category = 2, Code = 2,
          Token = [CHR ''a'', CHR 0x22, CHR 0x0A], Prefix = ''p'', Message = ''m''\<rparr>"
        "[CHR ''a'', CHR 0x22, CHR 0x0A]" "[CHR ''a'', CHR 0x22, CHR 0x0A]"]
  by (simp add: render_eval names_eval Quote_eval)

end
